theory Spec2Isabelle
  imports Main "HOL-Library.Word" "HOL-Library.Sublist" "HOL-Library.AList"
begin

section \<open>Bytes, slices and Python dictionaries\<close>

type_synonym byte = "8 word"
type_synonym bytes = "byte list"

text \<open>Python's \<open>xs[a:b]\<close> for \<open>0 \<le> a \<le> b\<close>: out-of-range bounds are clipped, never an error.\<close>

definition py_slice :: "nat \<Rightarrow> nat \<Rightarrow> 'a list \<Rightarrow> 'a list" where
  "py_slice a b xs = take (b - a) (drop a xs)"

text \<open>
  \<open>bytes.find(sub)\<close>: the lowest index at which \<open>sub\<close> occurs, or \<open>-1\<close>.
\<close>

fun bytes_find :: "bytes \<Rightarrow> bytes \<Rightarrow> int" where
  "bytes_find [] sub = (if sub = [] then 0 else - 1)"
| "bytes_find (x # xs) sub =
     (if prefix sub (x # xs) then 0
      else (let r = bytes_find xs sub in if r = - 1 then - 1 else r + 1))"

text \<open>
  A Python \<open>dict\<close> is an association list with distinct keys in insertion order:
  \<open>k in d\<close> is \<open>map_of d k \<noteq> None\<close>, \<open>d[k]\<close> is \<open>map_of d k\<close>, and \<open>d[k] = v\<close> is
  \<open>AList.update k v d\<close> (an existing key keeps its position, a new one is appended).
\<close>

type_synonym ('k, 'v) dict = "('k \<times> 'v) list"

definition dict_keys :: "('k, 'v) dict \<Rightarrow> 'k list" where
  "dict_keys d = map fst d"

definition dict_values :: "('k, 'v) dict \<Rightarrow> 'v list" where
  "dict_values d = map snd d"

section \<open>Errors\<close>

datatype error =
    StructError        \<comment> \<open>\<open>struct.unpack\<close> on a buffer of the wrong size\<close>
  | ImageDecodeError   \<comment> \<open>the image codec cannot read the bytes\<close>
  | ValueError         \<comment> \<open>\<open>Image.frombytes\<close> on a buffer that is too short\<close>
  | KeyError           \<comment> \<open>\<open>getGlyphID\<close> of an unknown glyph name\<close>
  | FT_Exception       \<comment> \<open>raised by the shape renderer\<close>

section \<open>Images and the image codec\<close>

type_synonym pixel = "byte \<times> byte \<times> byte \<times> byte"

record image =
  img_w :: nat
  img_h :: nat
  img_px :: "pixel list"

text \<open>
  The image codec is a collaborator of the program.  \<open>png_open\<close> stands for
  \<open>Image.open(io.BytesIO(b)).convert("RGBA")\<close> (\<open>None\<close> when the codec raises),
  \<open>png_save\<close> for \<open>img.save(buf, format="PNG")\<close>, and \<open>png_size\<close> for the \<open>size\<close> of
  \<open>Image.open(file)\<close>, which reads the header only (\<open>None\<close> when the codec raises).
\<close>

record codec =
  png_open :: "bytes \<Rightarrow> image option"
  png_save :: "image \<Rightarrow> bytes"
  png_size :: "bytes \<Rightarrow> (nat \<times> nat) option"

section \<open>Font tables\<close>

text \<open>Entries of a source sbix strike, as the extractor reads them (attribute \<open>data\<close>).\<close>

record sbix_entry =
  data :: bytes

text \<open>Glyph records as the sbix builder constructs them.\<close>

record sbix_glyph =
  glyphName :: string
  graphicType :: string
  originOffsetX :: int
  originOffsetY :: int
  imageData :: bytes

record strike =
  ppem :: int
  resolution :: int
  glyphData :: "(string, sbix_entry) dict"
  glyphs :: "(string, sbix_glyph) dict"

text \<open>A CBDT glyph object; \<open>getattr(g, "data", None)\<close> reads \<open>cbdt_data\<close>.\<close>

record cbdt_glyph =
  cbdt_data :: "bytes option"

type_synonym cbdt_strike = "(string, cbdt_glyph) dict"

text \<open>An outline of the \<open>glyf\<close> table.\<close>

record glyph =
  numberOfContours :: int
  endPtsOfContours :: "nat list"
  flags :: "nat list"
  coordinates :: "(int \<times> int) list"
  program :: "bytes option"

text \<open>A document of the SVG table: \<open>(svg, startGID, endGID)\<close>.\<close>

type_synonym svg_doc = "string \<times> nat \<times> nat"

text \<open>
  A table object is a bag of optional attributes, so that \<open>getattr(t, a, default)\<close> and
  \<open>hasattr(t, a)\<close> are case distinctions on \<open>None\<close>.
\<close>

record table =
  version :: "int option"
  tflags :: "int option"
  strikes :: "(int, strike) dict option"
  strikeData :: "cbdt_strike list option"
  tglyphs :: "(string \<rightharpoonup> glyph) option"
  docList :: "svg_doc list option"

definition newTable :: table where
  "newTable = \<lparr>version = None, tflags = None, strikes = None, strikeData = None,
     tglyphs = None, docList = None\<rparr>"

record font =
  glyphOrder :: "string list"
  tables :: "string \<rightharpoonup> table"

section \<open>Strike selection (\<open>extract_images\<close>, lines 34--40)\<close>

text \<open>
  Python's \<open>max(it, key=k)\<close> on a non-empty iterable: the running best is replaced only by
  a strictly larger key, so the first maximal element wins.
\<close>

fun py_max :: "('a \<Rightarrow> int) \<Rightarrow> 'a \<Rightarrow> 'a list \<Rightarrow> 'a" where
  "py_max key best [] = best"
| "py_max key best (x # xs) = py_max key (if key best < key x then x else best) xs"

definition sbix_strikes :: "font \<Rightarrow> (int, strike) dict" where
  "sbix_strikes f =
     (case tables f ''sbix'' of
        None \<Rightarrow> []
      | Some t \<Rightarrow> (case strikes t of None \<Rightarrow> [] | Some d \<Rightarrow> d))"

definition chosen_sbix :: "font \<Rightarrow> strike option" where
  "chosen_sbix f =
     (case dict_values (sbix_strikes f) of
        [] \<Rightarrow> None
      | s # rest \<Rightarrow> Some (py_max ppem s rest))"

definition cbdt_strikes :: "font \<Rightarrow> cbdt_strike list" where
  "cbdt_strikes f =
     (case tables f ''CBDT'' of
        None \<Rightarrow> []
      | Some t \<Rightarrow> (case strikeData t of None \<Rightarrow> [] | Some l \<Rightarrow> l))"

definition chosen_cbdt :: "font \<Rightarrow> cbdt_strike option" where
  "chosen_cbdt f = (if cbdt_strikes f = [] then None else Some (last (cbdt_strikes f)))"

section \<open>The CBDT record decoder (\<open>extract_images\<close>, lines 52--62)\<close>

definition png_magic :: bytes where
  "png_magic = [0x89, 0x50, 0x4E, 0x47]"

text \<open>\<open>struct.unpack(">I", b)[0]\<close>: a big-endian unsigned 32-bit integer from exactly four bytes.\<close>

fun unpack_be32 :: "bytes \<Rightarrow> error + nat" where
  "unpack_be32 [a, b, c, d] =
     Inr (unat a * 16777216 + unat b * 65536 + unat c * 256 + unat d)"
| "unpack_be32 _ = Inl StructError"

text \<open>Lines 54--59: the bytes handed to the image codec.\<close>

definition cbdt_blob :: "bytes \<Rightarrow> error + bytes" where
  "cbdt_blob d =
     (let png_offset = bytes_find d png_magic in
      if png_offset \<noteq> - 1 then Inr (drop (nat png_offset) d)
      else (case unpack_be32 (py_slice 5 9 d) of
              Inl e \<Rightarrow> Inl e
            | Inr img_len \<Rightarrow> Inr (py_slice 9 (9 + img_len) d)))"

text \<open>Lines 53--62: \<open>except Exception\<close> turns every failure into \<open>img = None\<close>.\<close>

definition decode_cbdt :: "codec \<Rightarrow> bytes \<Rightarrow> image option" where
  "decode_cbdt c d =
     (case cbdt_blob d of
        Inl e \<Rightarrow> None
      | Inr blob \<Rightarrow> png_open c blob)"

section \<open>The shape renderer (\<open>render_glyph\<close>)\<close>

record ft_bitmap =
  bmp_width :: nat
  bmp_rows :: nat
  bmp_buffer :: bytes

datatype size_request = SelectSize nat | PixelSizes nat nat

text \<open>
  The FreeType face is a collaborator.  \<open>load_glyph\<close> stands for the size request followed
  by \<open>face.load_glyph(gid, flags)\<close> and the read of \<open>face.glyph.bitmap\<close>; \<open>None\<close> when any of
  them raises \<open>FT_Exception\<close>.
\<close>

record face =
  num_fixed_sizes :: nat
  load_glyph :: "size_request \<Rightarrow> nat \<Rightarrow> ft_bitmap option"

definition DEFAULT_SIZE :: nat where
  "DEFAULT_SIZE = 128"

text \<open>
  \<open>Image.frombytes("L", (w, h), buf)\<close>: the raw decoder reads \<open>w * h\<close> bytes; a shorter
  buffer raises \<open>ValueError\<close>, surplus bytes are ignored.
\<close>

definition frombytes_L :: "nat \<Rightarrow> nat \<Rightarrow> bytes \<Rightarrow> error + bytes" where
  "frombytes_L w h buf = (if length buf < w * h then Inl ValueError else Inr (take (w * h) buf))"

text \<open>\<open>Image.new("RGBA", (w, h), (0, 0, 0, 0))\<close> followed by \<open>putalpha(alpha)\<close>.\<close>

definition alpha_image :: "nat \<Rightarrow> nat \<Rightarrow> bytes \<Rightarrow> image" where
  "alpha_image w h alpha = \<lparr>img_w = w, img_h = h, img_px = map (\<lambda>a. (0, 0, 0, a)) alpha\<rparr>"

definition render_glyph :: "face \<Rightarrow> nat \<Rightarrow> nat \<Rightarrow> error + image option" where
  "render_glyph fc glyph_index px_size =
     (case load_glyph fc
             (if num_fixed_sizes fc \<noteq> 0 then SelectSize 0 else PixelSizes 0 px_size) glyph_index of
        None \<Rightarrow> Inl FT_Exception
      | Some bmp \<Rightarrow>
          if bmp_width bmp = 0 \<or> bmp_rows bmp = 0 then Inr None
          else (case frombytes_L (bmp_width bmp) (bmp_rows bmp) (bmp_buffer bmp) of
                  Inl e \<Rightarrow> Inl e
                | Inr alpha \<Rightarrow> Inr (Some (alpha_image (bmp_width bmp) (bmp_rows bmp) alpha))))"

section \<open>The bitmap extractor (\<open>extract_images\<close>)\<close>

text \<open>
  \<open>font.getGlyphID(name)\<close> looks the name up in the reverse glyph map
  \<open>{g: i for i, g in enumerate(order)}\<close>, where a later position overwrites an earlier one.
\<close>

definition enumerate_list :: "'a list \<Rightarrow> (nat \<times> 'a) list" where
  "enumerate_list xs = zip [0..<length xs] xs"

definition getGlyphID :: "font \<Rightarrow> string \<Rightarrow> error + nat" where
  "getGlyphID f name =
     (case map_of (rev (map (\<lambda>(i, g). (g, i)) (enumerate_list (glyphOrder f)))) name of
        None \<Rightarrow> Inl KeyError
      | Some i \<Rightarrow> Inr i)"

text \<open>
  Lines 43--62: the \<open>if\<close>/\<open>elif\<close> over the two bitmap sources.  The sbix decode of line 48
  is outside any \<open>try\<close>, so a codec failure there leaves the function as an exception.
\<close>

definition reuse_bitmap ::
  "codec \<Rightarrow> strike option \<Rightarrow> cbdt_strike option \<Rightarrow> string \<Rightarrow> error + image option" where
  "reuse_bitmap c sb cb glyph_name =
     (if sb \<noteq> None \<and> map_of (glyphData (the sb)) glyph_name \<noteq> None then
        (let d = data (the (map_of (glyphData (the sb)) glyph_name)) in
         if d \<noteq> [] then
           (case png_open c d of None \<Rightarrow> Inl ImageDecodeError | Some img \<Rightarrow> Inr (Some img))
         else Inr None)
      else if cb \<noteq> None \<and> the cb \<noteq> [] \<and> map_of (the cb) glyph_name \<noteq> None then
        (case cbdt_data (the (map_of (the cb) glyph_name)) of
           None \<Rightarrow> Inr None
         | Some d \<Rightarrow> if d \<noteq> [] then Inr (decode_cbdt c d) else Inr None)
      else Inr None)"

text \<open>Lines 64--69, entered when no bitmap was reused: only \<open>FT_Exception\<close> is caught.\<close>

definition render_fallback :: "face \<Rightarrow> font \<Rightarrow> nat \<Rightarrow> string \<Rightarrow> error + image option" where
  "render_fallback fc f px_size glyph_name =
     (case getGlyphID f glyph_name of
        Inl e \<Rightarrow> Inl e
      | Inr gid \<Rightarrow>
          (case render_glyph fc gid px_size of
             Inl e \<Rightarrow> if e = FT_Exception then Inr None else Inl e
           | Inr r \<Rightarrow> Inr r))"

text \<open>Lines 43--69: the image of one glyph, \<open>Inr None\<close> when the loop reaches \<open>continue\<close>.\<close>

definition glyph_image ::
  "codec \<Rightarrow> strike option \<Rightarrow> cbdt_strike option \<Rightarrow> face \<Rightarrow> font \<Rightarrow> nat \<Rightarrow> string
     \<Rightarrow> error + image option" where
  "glyph_image c sb cb fc f px_size glyph_name =
     (case reuse_bitmap c sb cb glyph_name of
        Inl e \<Rightarrow> Inl e
      | Inr (Some img) \<Rightarrow> Inr (Some img)
      | Inr None \<Rightarrow> render_fallback fc f px_size glyph_name)"

text \<open>A directory: file name to file content.\<close>

type_synonym dir = "string \<rightharpoonup> bytes"

type_synonym glyph_images = "(string, image) dict"

fun extract_loop ::
  "codec \<Rightarrow> strike option \<Rightarrow> cbdt_strike option \<Rightarrow> face \<Rightarrow> font \<Rightarrow> nat \<Rightarrow> string list
     \<Rightarrow> dir \<times> glyph_images \<Rightarrow> error + dir \<times> glyph_images" where
  "extract_loop c sb cb fc f px_size [] st = Inr st"
| "extract_loop c sb cb fc f px_size (glyph_name # rest) (out_dir, images) =
     (case glyph_image c sb cb fc f px_size glyph_name of
        Inl e \<Rightarrow> Inl e
      | Inr None \<Rightarrow> extract_loop c sb cb fc f px_size rest (out_dir, images)
      | Inr (Some img) \<Rightarrow>
          extract_loop c sb cb fc f px_size rest
            (out_dir(glyph_name @ ''.png'' \<mapsto> png_save c img),
             AList.update glyph_name img images))"

text \<open>The result is the returned pair \<open>(font, images)\<close> and the output directory.\<close>

definition extract_images ::
  "codec \<Rightarrow> font \<Rightarrow> face \<Rightarrow> dir \<Rightarrow> nat \<Rightarrow> error + font \<times> glyph_images \<times> dir" where
  "extract_images c f fc out_dir px_size =
     (case extract_loop c (chosen_sbix f) (chosen_cbdt f) fc f px_size (glyphOrder f) (out_dir, []) of
        Inl e \<Rightarrow> Inl e
      | Inr (out_dir', images) \<Rightarrow> Inr (f, images, out_dir'))"

section \<open>The sbix table builder (\<open>embed_sbix\<close>)\<close>

text \<open>
  \<open>Strike(ppem=..., resolution=...)\<close> starts with an empty \<open>glyphs\<close> dictionary; line 80 adds
  an empty \<open>glyphData\<close>, and the loop of lines 81--91 fills \<open>glyphs\<close>.
\<close>

definition new_strike :: "int \<Rightarrow> int \<Rightarrow> strike" where
  "new_strike p r = \<lparr>ppem = p, resolution = r, glyphData = [], glyphs = []\<rparr>"

fun embed_loop :: "codec \<Rightarrow> (string \<times> image) list \<Rightarrow> strike \<Rightarrow> strike" where
  "embed_loop c [] st = st"
| "embed_loop c ((glyph_name, img) # rest) st =
     embed_loop c rest
       (st\<lparr>glyphs := AList.update glyph_name
            \<lparr>glyphName = glyph_name, graphicType = ''png '', originOffsetX = 0,
             originOffsetY = 0, imageData = png_save c img\<rparr> (glyphs st)\<rparr>)"

definition embed_sbix :: "codec \<Rightarrow> font \<Rightarrow> glyph_images \<Rightarrow> int \<Rightarrow> int \<Rightarrow> font" where
  "embed_sbix c f images p r =
     (let st = embed_loop c images (new_strike p r);
          t = newTable\<lparr>version := Some 1, tflags := Some 1, strikes := Some [(p, st)]\<rparr>
      in f\<lparr>tables := (tables f)(''sbix'' \<mapsto> t)\<rparr>)"

section \<open>The SVG font builder (\<open>make_svg_font.py\<close>)\<close>

definition empty_glyph :: glyph where
  "empty_glyph = \<lparr>numberOfContours = 0, endPtsOfContours = [], flags = [],
     coordinates = [], program = None\<rparr>"

fun stub_loop :: "string list \<Rightarrow> (string \<rightharpoonup> glyph) \<Rightarrow> (string \<rightharpoonup> glyph)" where
  "stub_loop [] gs = gs"
| "stub_loop (name # rest) gs =
     stub_loop rest (if gs name = None then gs(name \<mapsto> empty_glyph) else gs)"

definition add_empty_outlines :: "font \<Rightarrow> string list \<Rightarrow> font" where
  "add_empty_outlines f glyph_order =
     (let glyf = (case tables f ''glyf'' of None \<Rightarrow> newTable | Some t \<Rightarrow> t);
          gs = (case tglyphs glyf of None \<Rightarrow> Map.empty | Some g \<Rightarrow> g);
          glyf' = glyf\<lparr>tglyphs := Some (stub_loop glyph_order gs)\<rparr>
      in f\<lparr>tables := (tables f)(''glyf'' \<mapsto> glyf', ''loca'' \<mapsto> newTable)\<rparr>)"

text \<open>The outline stored for a name: \<open>font["glyf"].glyphs.get(name)\<close>, \<open>None\<close> when missing.\<close>

definition outline :: "font \<Rightarrow> string \<Rightarrow> glyph option" where
  "outline f name =
     (case tables f ''glyf'' of
        None \<Rightarrow> None
      | Some t \<Rightarrow> (case tglyphs t of None \<Rightarrow> None | Some gs \<Rightarrow> gs name))"

text \<open>\<open>str(n)\<close> for a non-negative integer.\<close>

fun dec :: "nat \<Rightarrow> string" where
  "dec n = (if n < 10 then [''0123456789'' ! n]
            else dec (n div 10) @ [''0123456789'' ! (n mod 10)])"

declare dec.simps [simp del]

text \<open>Reading a decimal numeral back, as a consumer of the document does.\<close>

definition digit_value :: "char \<Rightarrow> nat" where
  "digit_value ch = of_char ch - 48"

fun decimal_value :: "nat \<Rightarrow> string \<Rightarrow> nat" where
  "decimal_value acc [] = acc"
| "decimal_value acc (ch # rest) = decimal_value (10 * acc + digit_value ch) rest"

text \<open>\<open>base64.b64encode(b).decode("ascii")\<close>: the standard alphabet, padded with \<open>=\<close>.\<close>

definition b64char :: "nat \<Rightarrow> char" where
  "b64char n =
     ''ABCDEFGHIJKLMNOPQRSTUVWXYZabcdefghijklmnopqrstuvwxyz0123456789+/'' ! (n mod 64)"

fun b64encode :: "bytes \<Rightarrow> string" where
  "b64encode [] = []"
| "b64encode [a] =
     (let n = unat a * 65536
      in [b64char (n div 262144), b64char (n div 4096), CHR ''='', CHR ''=''])"
| "b64encode [a, b] =
     (let n = unat a * 65536 + unat b * 256
      in [b64char (n div 262144), b64char (n div 4096), b64char (n div 64), CHR ''=''])"
| "b64encode (a # b # c # rest) =
     (let n = unat a * 65536 + unat b * 256 + unat c
      in [b64char (n div 262144), b64char (n div 4096), b64char (n div 64), b64char n]
         @ b64encode rest)"

definition svg_text :: "nat \<Rightarrow> nat \<Rightarrow> string \<Rightarrow> string" where
  "svg_text w h b64 =
     ''<svg xmlns=\"http://www.w3.org/2000/svg\" width=\"'' @ dec w @ ''\" height=\"'' @ dec h
     @ ''\" '' @ ''viewBox=\"0 0 '' @ dec w @ '' '' @ dec h @ ''\"><image width=\"'' @ dec w
     @ ''\" height=\"'' @ dec h @ ''\" '' @ ''href=\"data:image/png;base64,'' @ b64 @ ''\" /></svg>''"

fun svg_docs_loop ::
  "codec \<Rightarrow> dir \<Rightarrow> (nat \<times> string) list \<Rightarrow> svg_doc list \<Rightarrow> error + svg_doc list" where
  "svg_docs_loop c png_dir [] docs = Inr docs"
| "svg_docs_loop c png_dir ((gid, name) # rest) docs =
     (case png_dir (name @ ''.png'') of
        None \<Rightarrow> svg_docs_loop c png_dir rest docs
      | Some content \<Rightarrow>
          (case png_size c content of
             None \<Rightarrow> Inl ImageDecodeError
           | Some (w, h) \<Rightarrow>
               svg_docs_loop c png_dir rest
                 (docs @ [(svg_text w h (b64encode content), gid, gid)])))"

definition build_svg_docs :: "codec \<Rightarrow> string list \<Rightarrow> dir \<Rightarrow> error + svg_doc list" where
  "build_svg_docs c glyph_order png_dir =
     svg_docs_loop c png_dir (enumerate_list glyph_order) []"

definition bitmap_tags :: "string list" where
  "bitmap_tags = [''sbix'', ''CBDT'', ''CBLC'', ''EBDT'', ''EBLC'']"

fun drop_tags :: "string list \<Rightarrow> font \<Rightarrow> font" where
  "drop_tags [] f = f"
| "drop_tags (tag # rest) f =
     drop_tags rest (if tables f tag \<noteq> None then f\<lparr>tables := (tables f)(tag := None)\<rparr> else f)"

definition drop_bitmap_tables :: "font \<Rightarrow> font" where
  "drop_bitmap_tables f = drop_tags bitmap_tags f"

text \<open>
  \<open>build_svg_font\<close> up to \<open>font.save(out_ttf)\<close>: the result is the font as saved.  The
  optional WOFF2 export that follows works on the subsetter, a collaborator.
\<close>

definition build_svg_font :: "codec \<Rightarrow> font \<Rightarrow> dir \<Rightarrow> error + font" where
  "build_svg_font c src png_dir =
     (let glyph_order = glyphOrder src;
          f1 = add_empty_outlines src glyph_order
      in case build_svg_docs c glyph_order png_dir of
           Inl e \<Rightarrow> Inl e
         | Inr docs \<Rightarrow>
             (let svg_table = newTable\<lparr>docList := Some docs\<rparr>;
                  f2 = f1\<lparr>tables := (tables f1)(''SVG '' \<mapsto> svg_table)\<rparr>
              in Inr (drop_bitmap_tables f2)))"

section \<open>Example inputs\<close>

definition ex_strike :: "int \<Rightarrow> strike" where
  "ex_strike p = \<lparr>ppem = p, resolution = 72, glyphData = [], glyphs = []\<rparr>"

definition ex_cbdt_font :: font where
  "ex_cbdt_font = \<lparr>glyphOrder = [''a''],
     tables = [''sbix'' \<mapsto> newTable\<lparr>strikes := Some [(96, ex_strike 96), (128, ex_strike 128), (64, ex_strike 64)]\<rparr>,
               ''CBDT'' \<mapsto> newTable\<lparr>strikeData := Some [[], [(''a'', \<lparr>cbdt_data = Some [1]\<rparr>)]]\<rparr>]\<rparr>"

definition ex_plain_font :: font where
  "ex_plain_font = \<lparr>glyphOrder = [''a''], tables = Map.empty\<rparr>"

fun ex_pixels :: "bytes \<Rightarrow> pixel list" where
  "ex_pixels (r # g # b # a # rest) = (r, g, b, a) # ex_pixels rest"
| "ex_pixels _ = []"

definition ex_png_save :: "image \<Rightarrow> bytes" where
  "ex_png_save img = png_magic @ [of_nat (img_w img), of_nat (img_h img)]
     @ concat (map (\<lambda>(r, g, b, a). [r, g, b, a]) (img_px img))"

definition ex_png_open :: "bytes \<Rightarrow> image option" where
  "ex_png_open b =
     (if prefix png_magic b \<and> 6 \<le> length b
      then Some \<lparr>img_w = unat (b ! 4), img_h = unat (b ! 5), img_px = ex_pixels (drop 6 b)\<rparr>
      else None)"

definition ex_codec :: codec where
  "ex_codec = \<lparr>png_open = ex_png_open, png_save = ex_png_save,
     png_size = (\<lambda>b. map_option (\<lambda>i. (img_w i, img_h i)) (ex_png_open b))\<rparr>"

definition ex_order8 :: "string list" where
  "ex_order8 = [''g0'', ''g1'', ''g2'', ''g3'', ''g4'', ''g5'', ''g6'', ''g7'']"

definition ex_png40 :: bytes where
  "ex_png40 = [0x89, 0x50, 0x4E, 0x47, 40, 40]"

definition ex_dir40 :: dir where
  "ex_dir40 = [''g7.png'' \<mapsto> ex_png40]"

definition ex_svg40 :: string where
  "ex_svg40 = ''<svg xmlns=\"http://www.w3.org/2000/svg\" width=\"40\" height=\"40\" viewBox=\"0 0 40 40\"><image width=\"40\" height=\"40\" href=\"data:image/png;base64,iVBORygo\" /></svg>''"

definition ex_outline :: glyph where
  "ex_outline = \<lparr>numberOfContours = 1, endPtsOfContours = [2], flags = [1, 1, 1],
     coordinates = [(0, 0), (10, 0), (5, 8)], program = None\<rparr>"

definition ex_bitmap_font :: font where
  "ex_bitmap_font = \<lparr>glyphOrder = [''g0'', ''g7''],
     tables = [''glyf'' \<mapsto> newTable\<lparr>tglyphs := Some [''g0'' \<mapsto> ex_outline]\<rparr>,
               ''sbix'' \<mapsto> newTable\<lparr>strikes := Some []\<rparr>,
               ''CBLC'' \<mapsto> newTable,
               ''CBDT'' \<mapsto> newTable\<lparr>strikeData := Some []\<rparr>]\<rparr>"

definition ex_face :: face where
  "ex_face = \<lparr>num_fixed_sizes = 0,
     load_glyph = (\<lambda>req gid.
       if gid = 0 then Some \<lparr>bmp_width = 2, bmp_rows = 1, bmp_buffer = [255, 128]\<rparr>
       else if gid = 1 then Some \<lparr>bmp_width = 0, bmp_rows = 0, bmp_buffer = []\<rparr>
       else None)\<rparr>"

definition ex_png1 :: bytes where
  "ex_png1 = [0x89, 0x50, 0x4E, 0x47, 1, 1, 0, 0, 0, 255]"

definition ex_img1 :: image where
  "ex_img1 = \<lparr>img_w = 1, img_h = 1, img_px = [(0, 0, 0, 255)]\<rparr>"

definition ex_rendered :: image where
  "ex_rendered = \<lparr>img_w = 2, img_h = 1, img_px = [(0, 0, 0, 255), (0, 0, 0, 128)]\<rparr>"

definition ex_mixed_font :: font where
  "ex_mixed_font = \<lparr>glyphOrder = [''a'', ''b'', ''c'', ''d''],
     tables = [''sbix'' \<mapsto> newTable\<lparr>strikes := Some
       [(128, \<lparr>ppem = 128, resolution = 72, glyphData = [(''d'', \<lparr>data = ex_png1\<rparr>)],
               glyphs = []\<rparr>)]\<rparr>]\<rparr>"

definition ex_both_font :: font where
  "ex_both_font = \<lparr>glyphOrder = [''a''],
     tables = [''sbix'' \<mapsto> newTable\<lparr>strikes := Some
                 [(128, \<lparr>ppem = 128, resolution = 72, glyphData = [(''a'', \<lparr>data = []\<rparr>)],
                         glyphs = []\<rparr>)]\<rparr>,
               ''CBDT'' \<mapsto> newTable\<lparr>strikeData := Some
                 [[(''a'', \<lparr>cbdt_data = Some ex_png1\<rparr>)]]\<rparr>]\<rparr>"

definition ex_corrupt_sbix_font :: font where
  "ex_corrupt_sbix_font = \<lparr>glyphOrder = [''a'', ''b''],
     tables = [''sbix'' \<mapsto> newTable\<lparr>strikes := Some
       [(128, \<lparr>ppem = 128, resolution = 72, glyphData = [(''b'', \<lparr>data = [0]\<rparr>)],
               glyphs = []\<rparr>)]\<rparr>]\<rparr>"

definition ex_corrupt_cbdt_font :: font where
  "ex_corrupt_cbdt_font = \<lparr>glyphOrder = [''a'', ''b''],
     tables = [''CBDT'' \<mapsto> newTable\<lparr>strikeData := Some
       [[(''b'', \<lparr>cbdt_data = Some [0]\<rparr>)]]\<rparr>]\<rparr>"

section \<open>Strike selection\<close>

lemma py_max_split:
  "\<exists>pre post. b # xs = pre @ py_max key b xs # post
      \<and> (\<forall>x\<in>set pre. key x < key (py_max key b xs))
      \<and> (\<forall>x\<in>set post. key x \<le> key (py_max key b xs))"
proof (induction xs arbitrary: b)
  case Nil
  have "[b] = [] @ b # []" by simp
  then show ?case by fastforce
next
  case (Cons x xs)
  show ?case
  proof (cases "key b < key x")
    case True
    define m where "m = py_max key x xs"
    from Cons.IH [of x] obtain pre post where
      split: "x # xs = pre @ m # post"
      and lt: "\<forall>y\<in>set pre. key y < key m"
      and le: "\<forall>y\<in>set post. key y \<le> key m"
      unfolding m_def by blast
    have "x \<in> set (pre @ m # post)" using split by (metis list.set_intros(1))
    then have "key x \<le> key m" using lt le by fastforce
    then have "\<forall>y\<in>set (b # pre). key y < key m" using True lt by auto
    moreover have "b # x # xs = (b # pre) @ m # post" using split by simp
    moreover have "py_max key b (x # xs) = m" using True by (simp add: m_def)
    ultimately show ?thesis using le by metis
  next
    case False
    define m where "m = py_max key b xs"
    from Cons.IH [of b] obtain pre post where
      split: "b # xs = pre @ m # post"
      and lt: "\<forall>y\<in>set pre. key y < key m"
      and le: "\<forall>y\<in>set post. key y \<le> key m"
      unfolding m_def by blast
    have res: "py_max key b (x # xs) = m" using False by (simp add: m_def)
    show ?thesis
    proof (cases pre)
      case Nil
      then have bm: "b = m" and xs: "xs = post" using split by simp_all
      have "b # x # xs = [] @ m # (x # post)" using bm xs by simp
      moreover have "\<forall>y\<in>set (x # post). key y \<le> key m" using False bm le by auto
      moreover have "\<forall>y\<in>set ([]::'a list). key y < key m" by simp
      ultimately show ?thesis unfolding res by blast
    next
      case (Cons p pre')
      then have pb: "p = b" and xs: "xs = pre' @ m # post" using split by simp_all
      have "key b < key m" using lt Cons pb by simp
      then have "\<forall>y\<in>set (b # x # pre'). key y < key m" using False lt Cons by auto
      moreover have "b # x # xs = (b # x # pre') @ m # post" using xs by simp
      ultimately show ?thesis unfolding res using le by blast
    qed
  qed
qed

lemma chosen_sbix_first_max:
  fixes f :: font
  assumes "sbix_strikes f \<noteq> []"
  shows "\<exists>pre s post. dict_values (sbix_strikes f) = pre @ s # post
           \<and> chosen_sbix f = Some s
           \<and> (\<forall>t\<in>set pre. ppem t < ppem s) \<and> (\<forall>t\<in>set post. ppem t \<le> ppem s)"
proof -
  from assms obtain s rest where v: "dict_values (sbix_strikes f) = s # rest"
    by (cases "sbix_strikes f") (auto simp: dict_values_def)
  then have c: "chosen_sbix f = Some (py_max ppem s rest)" by (simp add: chosen_sbix_def)
  from py_max_split [of s rest ppem] show ?thesis unfolding v c by blast
qed


lemma sbix_strikes_present:
  "tables f ''sbix'' = Some t \<Longrightarrow> strikes t = Some d \<Longrightarrow> sbix_strikes f = d"
  by (simp add: sbix_strikes_def)

lemma cbdt_strikes_present:
  "tables f ''CBDT'' = Some t \<Longrightarrow> strikeData t = Some l \<Longrightarrow> cbdt_strikes f = l"
  by (simp add: cbdt_strikes_def)

lemma chosen_sbix_none:
  "tables f ''sbix'' = None \<or> (\<exists>t. tables f ''sbix'' = Some t
      \<and> (strikes t = None \<or> strikes t = Some [])) \<Longrightarrow> chosen_sbix f = None"
  by (auto simp: chosen_sbix_def sbix_strikes_def dict_values_def)

lemma chosen_cbdt_none:
  "tables f ''CBDT'' = None \<or> (\<exists>t. tables f ''CBDT'' = Some t
      \<and> (strikeData t = None \<or> strikeData t = Some [])) \<Longrightarrow> chosen_cbdt f = None"
  by (auto simp: chosen_cbdt_def cbdt_strikes_def)

text \<open>
  Claim C4.  When the sbix table holds at least one strike, the chosen strike is the first
  one of maximal ppem in the iteration order of the strike dictionary: every strike before it
  is strictly smaller, every strike after it is at most as large; so with strikes at ppem 64,
  96 and 128 in any order the ppem-128 strike is chosen.  When the CBDT strike list is
  non-empty, its last strike is chosen.  An absent table, or one without strikes, yields no
  chosen strike of that kind.
\<close>

theorem strike_selection:
  "(tables f ''sbix'' = Some t \<and> strikes t = Some d \<and> d \<noteq> []
      \<longrightarrow> (\<exists>pre s post. dict_values d = pre @ s # post \<and> chosen_sbix f = Some s
             \<and> (\<forall>u\<in>set pre. ppem u < ppem s) \<and> (\<forall>u\<in>set post. ppem u \<le> ppem s)))
   \<and> (tables f ''sbix'' = Some t \<and> strikes t = Some d
        \<and> set (map ppem (dict_values d)) = {64, 96, 128}
      \<longrightarrow> (\<exists>s\<in>set (dict_values d). chosen_sbix f = Some s \<and> ppem s = 128))
   \<and> (tables f ''CBDT'' = Some t' \<and> strikeData t' = Some l \<and> l \<noteq> []
      \<longrightarrow> chosen_cbdt f = Some (last l))
   \<and> (tables f ''sbix'' = None \<or> (\<exists>t. tables f ''sbix'' = Some t
          \<and> (strikes t = None \<or> strikes t = Some []))
      \<longrightarrow> chosen_sbix f = None)
   \<and> (tables f ''CBDT'' = None \<or> (\<exists>t. tables f ''CBDT'' = Some t
          \<and> (strikeData t = None \<or> strikeData t = Some []))
      \<longrightarrow> chosen_cbdt f = None)"
proof (intro conjI impI)
  assume a: "tables f ''sbix'' = Some t \<and> strikes t = Some d \<and> d \<noteq> []"
  then have "sbix_strikes f = d" by (simp add: sbix_strikes_present)
  with a chosen_sbix_first_max [of f]
  show "\<exists>pre s post. dict_values d = pre @ s # post \<and> chosen_sbix f = Some s
             \<and> (\<forall>u\<in>set pre. ppem u < ppem s) \<and> (\<forall>u\<in>set post. ppem u \<le> ppem s)"
    by simp
next
  assume a: "tables f ''sbix'' = Some t \<and> strikes t = Some d
        \<and> set (map ppem (dict_values d)) = {64, 96, 128}"
  then have sd: "sbix_strikes f = d" by (simp add: sbix_strikes_present)
  from a have ne: "d \<noteq> []" by (auto simp: dict_values_def)
  with sd chosen_sbix_first_max [of f] obtain pre s post where
    split: "dict_values d = pre @ s # post" and ch: "chosen_sbix f = Some s"
    and lt: "\<forall>u\<in>set pre. ppem u < ppem s" and le: "\<forall>u\<in>set post. ppem u \<le> ppem s"
    by auto
  have all: "\<forall>u\<in>set (dict_values d). ppem u \<le> ppem s"
    unfolding split using lt le by auto
  have mem: "s \<in> set (dict_values d)" unfolding split by simp
  from a have "(128::int) \<in> ppem ` set (dict_values d)" by simp
  then obtain u where "u \<in> set (dict_values d)" "ppem u = 128" by auto
  with all have "128 \<le> ppem s" by force
  moreover from mem a have "ppem s \<in> {64, 96, 128}" by (metis image_eqI set_map)
  ultimately have "ppem s = 128" by auto
  with mem ch show "\<exists>s\<in>set (dict_values d). chosen_sbix f = Some s \<and> ppem s = 128" by blast
next
  assume "tables f ''CBDT'' = Some t' \<and> strikeData t' = Some l \<and> l \<noteq> []"
  then show "chosen_cbdt f = Some (last l)"
    by (simp add: chosen_cbdt_def cbdt_strikes_present)
next
  assume "tables f ''sbix'' = None \<or> (\<exists>t. tables f ''sbix'' = Some t
          \<and> (strikes t = None \<or> strikes t = Some []))"
  then show "chosen_sbix f = None" by (rule chosen_sbix_none)
next
  assume "tables f ''CBDT'' = None \<or> (\<exists>t. tables f ''CBDT'' = Some t
          \<and> (strikeData t = None \<or> strikeData t = Some []))"
  then show "chosen_cbdt f = None" by (rule chosen_cbdt_none)
qed

theorem strike_selection_witness:
  "tables ex_cbdt_font ''sbix''
     = Some (newTable\<lparr>strikes := Some [(96, ex_strike 96), (128, ex_strike 128), (64, ex_strike 64)]\<rparr>)
   \<and> chosen_sbix ex_cbdt_font = Some (ex_strike 128)
   \<and> chosen_cbdt ex_cbdt_font = Some [(''a'', \<lparr>cbdt_data = Some [1]\<rparr>)]
   \<and> tables ex_plain_font ''sbix'' = None \<and> chosen_sbix ex_plain_font = None
   \<and> tables ex_plain_font ''CBDT'' = None \<and> chosen_cbdt ex_plain_font = None"
proof -
  let ?d = "[(96, ex_strike 96), (128, ex_strike 128), (64, ex_strike 64)] :: (int, strike) dict"
  let ?l = "[[], [(''a'', \<lparr>cbdt_data = Some [1]\<rparr>)]] :: cbdt_strike list"
  have t1: "tables ex_cbdt_font ''sbix'' = Some (newTable\<lparr>strikes := Some ?d\<rparr>)"
    by (simp add: ex_cbdt_font_def)
  have t2: "tables ex_cbdt_font ''CBDT'' = Some (newTable\<lparr>strikeData := Some ?l\<rparr>)"
    by (simp add: ex_cbdt_font_def)
  have p: "set (map ppem (dict_values ?d)) = {64, 96, 128}"
    by (auto simp: dict_values_def ex_strike_def)
  from strike_selection [of ex_cbdt_font "newTable\<lparr>strikes := Some ?d\<rparr>" ?d
      "newTable\<lparr>strikeData := Some ?l\<rparr>" ?l] t1 t2 p
  have "(\<exists>s\<in>set (dict_values ?d). chosen_sbix ex_cbdt_font = Some s \<and> ppem s = 128)"
    and c2: "chosen_cbdt ex_cbdt_font = Some (last ?l)"
    by simp_all
  then have c1: "chosen_sbix ex_cbdt_font = Some (ex_strike 128)"
    by (auto simp: dict_values_def ex_strike_def)
  have n: "tables ex_plain_font ''sbix'' = None" "tables ex_plain_font ''CBDT'' = None"
    by (simp_all add: ex_plain_font_def)
  from strike_selection [of ex_plain_font] n
  have "chosen_sbix ex_plain_font = None" "chosen_cbdt ex_plain_font = None" by simp_all
  with t1 c1 c2 n show ?thesis by simp
qed

section \<open>CBDT record decoding\<close>

lemma bytes_find_lower: "- 1 \<le> bytes_find xs sub"
  by (induction xs) (auto simp: Let_def)

lemma bytes_find_found:
  "bytes_find xs sub = int k \<Longrightarrow>
     prefix sub (drop k xs) \<and> (\<forall>j<k. \<not> prefix sub (drop j xs))"
proof (induction xs arbitrary: k)
  case Nil
  then show ?case by (auto split: if_splits)
next
  case (Cons x xs)
  show ?case
  proof (cases "prefix sub (x # xs)")
    case True
    with Cons.prems have "k = 0" by simp
    with True show ?thesis by simp
  next
    case False
    with Cons.prems have r: "bytes_find xs sub \<noteq> - 1" and k: "int k = bytes_find xs sub + 1"
      by (auto simp: Let_def split: if_splits)
    from r bytes_find_lower [of xs sub] have "0 \<le> bytes_find xs sub" by linarith
    define k' where "k' = nat (bytes_find xs sub)"
    have f: "bytes_find xs sub = int k'" using \<open>0 \<le> bytes_find xs sub\<close> by (simp add: k'_def)
    have k': "k = Suc k'" using k f by linarith
    from Cons.IH [OF f] have ih: "prefix sub (drop k' xs)" "\<forall>j<k'. \<not> prefix sub (drop j xs)"
      by simp_all
    have "\<forall>j<Suc k'. \<not> prefix sub (drop j (x # xs))"
    proof (intro allI impI)
      fix j assume "j < Suc k'"
      then show "\<not> prefix sub (drop j (x # xs))"
        using False ih(2) by (cases j) auto
    qed
    with ih(1) k' show ?thesis by simp
  qed
qed

lemma bytes_find_missing:
  "bytes_find xs sub = - 1 \<Longrightarrow> \<not> prefix sub (drop j xs)"
proof (induction xs arbitrary: j)
  case Nil
  then show ?case by (auto split: if_splits)
next
  case (Cons x xs)
  from Cons.prems bytes_find_lower [of xs sub]
  have np: "\<not> prefix sub (x # xs)" and r: "bytes_find xs sub = - 1"
    by (auto simp: Let_def split: if_splits)
  show ?case
  proof (cases j)
    case 0
    with np show ?thesis by simp
  next
    case (Suc j')
    with Cons.IH [OF r, of j'] show ?thesis by simp
  qed
qed

lemma bytes_find_first:
  assumes "prefix sub (drop k xs)" and "\<forall>j<k. \<not> prefix sub (drop j xs)"
  shows "bytes_find xs sub = int k"
proof -
  have "bytes_find xs sub \<noteq> - 1" using assms(1) bytes_find_missing by blast
  with bytes_find_lower [of xs sub] have nonneg: "0 \<le> bytes_find xs sub" by linarith
  define n where "n = nat (bytes_find xs sub)"
  have n: "bytes_find xs sub = int n" using nonneg by (simp add: n_def)
  from bytes_find_found [OF n]
  have occ: "prefix sub (drop n xs)" and least: "\<forall>j<n. \<not> prefix sub (drop j xs)" by simp_all
  have "\<not> n < k" using occ assms(2) by blast
  moreover have "\<not> k < n" using least assms(1) by blast
  ultimately show ?thesis unfolding n by simp
qed

lemma unpack_be32_slice:
  assumes "9 \<le> length d"
  shows "unpack_be32 (py_slice 5 9 d)
           = Inr (unat (d ! 5) * 16777216 + unat (d ! 6) * 65536 + unat (d ! 7) * 256 + unat (d ! 8))"
proof -
  have "drop 5 d = d ! 5 # drop 6 d" "drop 6 d = d ! 6 # drop 7 d"
    "drop 7 d = d ! 7 # drop 8 d" "drop 8 d = d ! 8 # drop 9 d"
    using assms Cons_nth_drop_Suc [of 5 d] Cons_nth_drop_Suc [of 6 d]
      Cons_nth_drop_Suc [of 7 d] Cons_nth_drop_Suc [of 8 d]
    by simp_all
  then have "py_slice 5 9 d = [d ! 5, d ! 6, d ! 7, d ! 8]"
    by (simp add: py_slice_def)
  then show ?thesis by simp
qed

lemma unpack_be32_short:
  assumes "length d < 9"
  shows "unpack_be32 (py_slice 5 9 d) = Inl StructError"
proof -
  have "length (py_slice 5 9 d) < 4" using assms by (simp add: py_slice_def)
  then show ?thesis
    by (cases "py_slice 5 9 d" rule: unpack_be32.cases) auto
qed


lemma cbdt_blob_found:
  assumes "prefix png_magic (drop k d)" and "\<forall>j<k. \<not> prefix png_magic (drop j d)"
  shows "cbdt_blob d = Inr (drop k d)"
  using bytes_find_first [OF assms] by (simp add: cbdt_blob_def)

lemma cbdt_blob_length:
  assumes "\<forall>j. \<not> prefix png_magic (drop j d)" and "9 \<le> length d"
  shows "cbdt_blob d = Inr (take (unat (d ! 5) * 16777216 + unat (d ! 6) * 65536
                                  + unat (d ! 7) * 256 + unat (d ! 8)) (drop 9 d))"
proof -
  have "bytes_find d png_magic = - 1"
  proof (rule ccontr)
    assume "bytes_find d png_magic \<noteq> - 1"
    with bytes_find_lower [of d png_magic] have "0 \<le> bytes_find d png_magic" by linarith
    then have "bytes_find d png_magic = int (nat (bytes_find d png_magic))" by simp
    from bytes_find_found [OF this] assms(1) show False by blast
  qed
  moreover have "py_slice 9 (9 + n) d = take n (drop 9 d)" for n
    by (simp add: py_slice_def)
  ultimately show ?thesis
    by (simp add: cbdt_blob_def unpack_be32_slice [OF assms(2)])
qed

lemma cbdt_blob_short:
  assumes "\<forall>j. \<not> prefix png_magic (drop j d)" and "length d < 9"
  shows "cbdt_blob d = Inl StructError"
proof -
  have "bytes_find d png_magic = - 1"
  proof (rule ccontr)
    assume "bytes_find d png_magic \<noteq> - 1"
    with bytes_find_lower [of d png_magic] have "0 \<le> bytes_find d png_magic" by linarith
    then have "bytes_find d png_magic = int (nat (bytes_find d png_magic))" by simp
    from bytes_find_found [OF this] assms(1) show False by blast
  qed
  then show ?thesis
    by (simp add: cbdt_blob_def unpack_be32_short [OF assms(2)])
qed

lemma first_occurrence:
  assumes "prefix sub (drop j xs)"
  shows "\<exists>k. prefix sub (drop k xs) \<and> (\<forall>i<k. \<not> prefix sub (drop i xs))"
proof -
  define k where "k = (LEAST i. prefix sub (drop i xs))"
  have "prefix sub (drop k xs)" unfolding k_def using assms by (rule LeastI)
  moreover have "\<forall>i<k. \<not> prefix sub (drop i xs)"
    unfolding k_def using not_less_Least by blast
  ultimately show ?thesis by blast
qed

text \<open>
  Claim C3.  The decoder scans the record for the PNG signature first.  When the signature
  occurs, the image bytes are the record from its first occurrence to the end, whatever the
  length field says.  When it does not occur and the record has the nine header bytes, the
  image bytes are the \<open>N\<close> bytes from offset 9 (as many of them as the record holds), \<open>N\<close>
  being the big-endian 32-bit number at offsets 5 to 8.  A shorter record without signature
  has no length field to read and yields no image.
\<close>

theorem cbdt_record_decoder:
  "(prefix png_magic (drop k d) \<and> (\<forall>j<k. \<not> prefix png_magic (drop j d))
      \<longrightarrow> cbdt_blob d = Inr (drop k d) \<and> decode_cbdt c d = png_open c (drop k d))
   \<and> ((\<exists>j. prefix png_magic (drop j d))
      \<longrightarrow> (\<exists>i. prefix png_magic (drop i d) \<and> (\<forall>j<i. \<not> prefix png_magic (drop j d))
              \<and> cbdt_blob d = Inr (drop i d)))
   \<and> ((\<forall>j. \<not> prefix png_magic (drop j d)) \<and> 9 \<le> length d
      \<longrightarrow> (let n = unat (d ! 5) * 16777216 + unat (d ! 6) * 65536
                      + unat (d ! 7) * 256 + unat (d ! 8)
           in cbdt_blob d = Inr (take n (drop 9 d))
              \<and> decode_cbdt c d = png_open c (take n (drop 9 d))
              \<and> (9 + n \<le> length d \<longrightarrow> length (take n (drop 9 d)) = n)))
   \<and> ((\<forall>j. \<not> prefix png_magic (drop j d)) \<and> length d < 9
      \<longrightarrow> cbdt_blob d = Inl StructError \<and> decode_cbdt c d = None)"
proof (intro conjI impI)
  assume a: "prefix png_magic (drop k d) \<and> (\<forall>j<k. \<not> prefix png_magic (drop j d))"
  then show "cbdt_blob d = Inr (drop k d)" by (simp add: cbdt_blob_found)
  then show "decode_cbdt c d = png_open c (drop k d)" by (simp add: decode_cbdt_def)
next
  assume "\<exists>j. prefix png_magic (drop j d)"
  then obtain i where "prefix png_magic (drop i d)" "\<forall>j<i. \<not> prefix png_magic (drop j d)"
    using first_occurrence by blast
  then show "\<exists>i. prefix png_magic (drop i d) \<and> (\<forall>j<i. \<not> prefix png_magic (drop j d))
              \<and> cbdt_blob d = Inr (drop i d)"
    using cbdt_blob_found by blast
next
  assume a: "(\<forall>j. \<not> prefix png_magic (drop j d)) \<and> 9 \<le> length d"
  then have "cbdt_blob d = Inr (take (unat (d ! 5) * 16777216 + unat (d ! 6) * 65536
                                  + unat (d ! 7) * 256 + unat (d ! 8)) (drop 9 d))"
    by (simp add: cbdt_blob_length)
  then show "let n = unat (d ! 5) * 16777216 + unat (d ! 6) * 65536
                      + unat (d ! 7) * 256 + unat (d ! 8)
           in cbdt_blob d = Inr (take n (drop 9 d))
              \<and> decode_cbdt c d = png_open c (take n (drop 9 d))
              \<and> (9 + n \<le> length d \<longrightarrow> length (take n (drop 9 d)) = n)"
    by (simp add: decode_cbdt_def Let_def)
next
  assume a: "(\<forall>j. \<not> prefix png_magic (drop j d)) \<and> length d < 9"
  then show "cbdt_blob d = Inl StructError" by (simp add: cbdt_blob_short)
  then show "decode_cbdt c d = None" by (simp add: decode_cbdt_def)
qed

theorem cbdt_record_decoder_witness:
  "prefix png_magic (drop 9 [0, 0, 0, 0, 0, 0, 0, 0, 99, 0x89, 0x50, 0x4E, 0x47, 1, 2, 3])
   \<and> \<not> (\<exists>j<9. prefix png_magic (drop j [0, 0, 0, 0, 0, 0, 0, 0, 99, 0x89, 0x50, 0x4E, 0x47, 1, 2, 3]))
   \<and> cbdt_blob [0, 0, 0, 0, 0, 0, 0, 0, 99, 0x89, 0x50, 0x4E, 0x47, 1, 2, 3]
       = Inr [0x89, 0x50, 0x4E, 0x47, 1, 2, 3]
   \<and> (\<forall>j. \<not> prefix png_magic (drop j [0, 0, 0, 0, 0, 0, 0, 0, 2, 7, 8, 9]))
   \<and> (9::nat) \<le> length [0, 0, 0, 0, 0, 0, 0, 0, 2, 7, 8, 9 :: byte]
   \<and> cbdt_blob [0, 0, 0, 0, 0, 0, 0, 0, 2, 7, 8, 9] = Inr [7, 8]
   \<and> (\<forall>j. \<not> prefix png_magic (drop j [1, 2, 3]))
   \<and> cbdt_blob [1, 2, 3] = Inl StructError"
proof -
  let ?d1 = "[0, 0, 0, 0, 0, 0, 0, 0, 99, 0x89, 0x50, 0x4E, 0x47, 1, 2, 3] :: bytes"
  let ?d2 = "[0, 0, 0, 0, 0, 0, 0, 0, 2, 7, 8, 9] :: bytes"
  let ?d3 = "[1, 2, 3] :: bytes"
  have f1: "bytes_find ?d1 png_magic = int 9" by (simp add: png_magic_def)
  have f2: "bytes_find ?d2 png_magic = - 1" by (simp add: png_magic_def)
  have f3: "bytes_find ?d3 png_magic = - 1" by (simp add: png_magic_def)
  have h1: "prefix png_magic (drop 9 ?d1) \<and> (\<forall>j<9. \<not> prefix png_magic (drop j ?d1))"
    using bytes_find_found [OF f1] by simp
  have h2: "\<forall>j. \<not> prefix png_magic (drop j ?d2)"
    using bytes_find_missing [OF f2] by blast
  have h3: "\<forall>j. \<not> prefix png_magic (drop j ?d3)"
    using bytes_find_missing [OF f3] by blast
  have "cbdt_blob ?d1 = Inr (drop 9 ?d1)"
    using cbdt_record_decoder [of 9 ?d1] h1 by blast
  moreover have "cbdt_blob ?d2 = Inr [7, 8]"
    using cbdt_record_decoder [of 0 ?d2] h2 by (simp add: Let_def)
  moreover have "cbdt_blob ?d3 = Inl StructError"
    using cbdt_record_decoder [of 0 ?d3] h3 by simp
  ultimately show ?thesis using h1 h2 h3 by simp
qed

section \<open>Outline stubs, SVG documents and table stripping\<close>

lemma stub_loop_lookup:
  "stub_loop names gs name =
     (case gs name of
        Some g \<Rightarrow> Some g
      | None \<Rightarrow> if name \<in> set names then Some empty_glyph else None)"
proof (induction names arbitrary: gs)
  case Nil
  show ?case by (simp split: option.splits)
next
  case (Cons n names)
  show ?case
    by (simp add: Cons.IH split: option.splits)
qed

lemma outline_add_empty_outlines:
  "outline (add_empty_outlines f names) name =
     (case outline f name of
        Some g \<Rightarrow> Some g
      | None \<Rightarrow> if name \<in> set names then Some empty_glyph else None)"
  by (simp add: outline_def add_empty_outlines_def Let_def stub_loop_lookup newTable_def
      split: option.splits)

lemma glyphOrder_add_empty_outlines [simp]:
  "glyphOrder (add_empty_outlines f names) = glyphOrder f"
  by (simp add: add_empty_outlines_def Let_def)

lemma tables_drop_tags:
  "tables (drop_tags tags f) tag = (if tag \<in> set tags then None else tables f tag)"
  by (induction tags arbitrary: f) auto

lemma glyphOrder_drop_tags [simp]: "glyphOrder (drop_tags tags f) = glyphOrder f"
  by (induction tags arbitrary: f) auto

lemma drop_tags_absent: "\<forall>tag\<in>set tags. tables f tag = None \<Longrightarrow> drop_tags tags f = f"
  by (induction tags arbitrary: f) auto

lemma build_svg_font_Inr:
  assumes "build_svg_font c f png_dir = Inr f'"
  obtains docs where "build_svg_docs c (glyphOrder f) png_dir = Inr docs"
    and "f' = drop_bitmap_tables
           ((add_empty_outlines f (glyphOrder f))
              \<lparr>tables := (tables (add_empty_outlines f (glyphOrder f)))
                 (''SVG '' \<mapsto> newTable\<lparr>docList := Some docs\<rparr>)\<rparr>)"
  using assms by (auto simp: build_svg_font_def Let_def split: sum.splits)

lemma outline_build_svg_font:
  assumes "build_svg_font c f png_dir = Inr f'"
  shows "outline f' name = outline (add_empty_outlines f (glyphOrder f)) name"
    and "glyphOrder f' = glyphOrder f"
proof -
  from assms obtain docs where
    f': "f' = drop_bitmap_tables
           ((add_empty_outlines f (glyphOrder f))
              \<lparr>tables := (tables (add_empty_outlines f (glyphOrder f)))
                 (''SVG '' \<mapsto> newTable\<lparr>docList := Some docs\<rparr>)\<rparr>)"
    by (rule build_svg_font_Inr)
  show "outline f' name = outline (add_empty_outlines f (glyphOrder f)) name"
    unfolding f' by (simp add: outline_def drop_bitmap_tables_def tables_drop_tags bitmap_tags_def)
  show "glyphOrder f' = glyphOrder f"
    unfolding f' by (simp add: drop_bitmap_tables_def)
qed


lemma digit_value_digit:
  assumes "n < 10"
  shows "digit_value (''0123456789'' ! n) = n"
proof -
  from assms have "n \<in> {0, 1, 2, 3, 4, 5, 6, 7, 8, 9}" by auto
  then show ?thesis by (auto simp: digit_value_def)
qed

lemma decimal_value_append:
  "decimal_value acc (xs @ ys) = decimal_value (decimal_value acc xs) ys"
  by (induction xs arbitrary: acc) auto

lemma decimal_value_dec: "decimal_value 0 (dec n) = n"
proof (induction n rule: dec.induct)
  case (1 n)
  show ?case
  proof (cases "n < 10")
    case True
    then show ?thesis by (simp add: dec.simps [of n] digit_value_digit)
  next
    case False
    then have "decimal_value 0 (dec (n div 10)) = n div 10" using 1 by simp
    moreover have "digit_value (''0123456789'' ! (n mod 10)) = n mod 10"
      by (rule digit_value_digit) simp
    ultimately show ?thesis
      using False by (simp add: dec.simps [of n] decimal_value_append)
  qed
qed

lemma svg_docs_loop_gids:
  "svg_docs_loop c png_dir items acc = Inr r \<Longrightarrow>
     map (\<lambda>(svg, s, e). s) r
       = map (\<lambda>(svg, s, e). s) acc
         @ map fst (filter (\<lambda>(gid, name). png_dir (name @ ''.png'') \<noteq> None) items)"
proof (induction items arbitrary: acc)
  case Nil
  then show ?case by simp
next
  case (Cons it items)
  obtain gid name where it: "it = (gid, name)" by (cases it)
  show ?case
  proof (cases "png_dir (name @ ''.png'')")
    case None
    with Cons.prems it have "svg_docs_loop c png_dir items acc = Inr r" by simp
    from Cons.IH [OF this] None it show ?thesis by simp
  next
    case (Some content)
    with Cons.prems it obtain w h where sz: "png_size c content = Some (w, h)"
      and rest: "svg_docs_loop c png_dir items
                   (acc @ [(svg_text w h (b64encode content), gid, gid)]) = Inr r"
      by (auto split: option.splits)
    from Cons.IH [OF rest] Some it show ?thesis by simp
  qed
qed

lemma svg_docs_loop_docs:
  "svg_docs_loop c png_dir items acc = Inr r \<Longrightarrow> doc \<in> set r \<Longrightarrow>
     doc \<in> set acc \<or>
     (\<exists>gid name content w h. (gid, name) \<in> set items
        \<and> png_dir (name @ ''.png'') = Some content \<and> png_size c content = Some (w, h)
        \<and> doc = (svg_text w h (b64encode content), gid, gid))"
proof (induction items arbitrary: acc)
  case Nil
  then show ?case by simp
next
  case (Cons it items)
  define made where "made its \<longleftrightarrow>
     (\<exists>gid name content w h. (gid, name) \<in> set its
        \<and> png_dir (name @ ''.png'') = Some content \<and> png_size c content = Some (w, h)
        \<and> doc = (svg_text w h (b64encode content), gid, gid))" for its
  have mono: "made items \<Longrightarrow> made (it # items)"
    unfolding made_def by (metis list.set_intros(2))
  obtain gid name where it: "it = (gid, name)" by (cases it)
  have "doc \<in> set acc \<or> made (it # items)"
  proof (cases "png_dir (name @ ''.png'')")
    case None
    with Cons.prems it have "svg_docs_loop c png_dir items acc = Inr r" by simp
    from Cons.IH [OF this Cons.prems(2)] have "doc \<in> set acc \<or> made items"
      unfolding made_def .
    with mono show ?thesis by blast
  next
    case (Some content)
    with Cons.prems it obtain w h where sz: "png_size c content = Some (w, h)"
      and rest: "svg_docs_loop c png_dir items
                   (acc @ [(svg_text w h (b64encode content), gid, gid)]) = Inr r"
      by (auto split: option.splits)
    from Cons.IH [OF rest Cons.prems(2)]
    have "doc \<in> set (acc @ [(svg_text w h (b64encode content), gid, gid)]) \<or> made items"
      unfolding made_def .
    moreover have "made (it # items)" if "doc = (svg_text w h (b64encode content), gid, gid)"
      unfolding made_def using that Some sz it by (metis list.set_intros(1))
    ultimately show ?thesis using mono by auto
  qed
  then show ?case unfolding made_def .
qed

lemma svg_docs_loop_total:
  "(\<And>gid name content. (gid, name) \<in> set items \<Longrightarrow> png_dir (name @ ''.png'') = Some content
       \<Longrightarrow> png_size c content \<noteq> None)
   \<Longrightarrow> \<exists>r. svg_docs_loop c png_dir items acc = Inr r"
proof (induction items arbitrary: acc)
  case Nil
  show ?case by simp
next
  case (Cons it items)
  obtain gid name where it: "it = (gid, name)" by (cases it)
  have ih: "\<exists>r. svg_docs_loop c png_dir items acc' = Inr r" for acc'
  proof (rule Cons.IH)
    fix g n ct
    assume "(g, n) \<in> set items" "png_dir (n @ ''.png'') = Some ct"
    then show "png_size c ct \<noteq> None" using Cons.prems [of g n ct] by simp
  qed
  show ?case
  proof (cases "png_dir (name @ ''.png'')")
    case None
    with ih it show ?thesis by simp
  next
    case (Some content)
    with Cons.prems [of gid name content] it obtain w h where "png_size c content = Some (w, h)"
      by auto
    with Some ih it show ?thesis by simp
  qed
qed

lemma enumerate_list_map: "enumerate_list xs = map (\<lambda>i. (i, xs ! i)) [0..<length xs]"
  unfolding enumerate_list_def by (rule nth_equalityI) simp_all

lemma set_enumerate_list:
  "(gid, name) \<in> set (enumerate_list xs) \<longleftrightarrow> gid < length xs \<and> name = xs ! gid"
  by (auto simp: enumerate_list_map)

lemma gids_enumerate_list:
  "map fst (filter (\<lambda>(gid, name). P name) (enumerate_list xs))
     = filter (\<lambda>gid. P (xs ! gid)) [0..<length xs]"
  by (simp add: enumerate_list_map filter_map comp_def)

lemma svg_text_declares:
  "\<exists>rest. svg_text w h b64 =
     ''<svg xmlns=\"http://www.w3.org/2000/svg\" width=\"'' @ dec w @ ''\" height=\"'' @ dec h
     @ ''\" viewBox=\"0 0 '' @ dec w @ '' '' @ dec h @ ''\">'' @ rest"
  by (simp add: svg_text_def)

lemma build_svg_docs_total:
  assumes "\<forall>gid content. gid < length glyph_order
             \<and> png_dir (glyph_order ! gid @ ''.png'') = Some content
             \<longrightarrow> png_size c content \<noteq> None"
  shows "\<exists>docs. build_svg_docs c glyph_order png_dir = Inr docs"
  unfolding build_svg_docs_def
proof (rule svg_docs_loop_total)
  fix gid name content
  assume "(gid, name) \<in> set (enumerate_list glyph_order)" "png_dir (name @ ''.png'') = Some content"
  then have "gid < length glyph_order \<and> png_dir (glyph_order ! gid @ ''.png'') = Some content"
    by (simp add: set_enumerate_list)
  with assms show "png_size c content \<noteq> None" by blast
qed

lemma svg_documents_Inr:
  assumes "build_svg_docs c glyph_order png_dir = Inr docs"
  shows "map (\<lambda>(svg, s, e). s) docs
           = filter (\<lambda>gid. png_dir (glyph_order ! gid @ ''.png'') \<noteq> None)
               [0..<length glyph_order]
         \<and> sorted_wrt (<) (map (\<lambda>(svg, s, e). s) docs)
         \<and> (\<forall>(svg, s, e)\<in>set docs. e = s \<and> s < length glyph_order
              \<and> (\<exists>content w h rest.
                    png_dir (glyph_order ! s @ ''.png'') = Some content
                  \<and> png_size c content = Some (w, h)
                  \<and> svg = svg_text w h (b64encode content)
                  \<and> svg = ''<svg xmlns=\"http://www.w3.org/2000/svg\" width=\"'' @ dec w
                          @ ''\" height=\"'' @ dec h @ ''\" viewBox=\"0 0 '' @ dec w @ '' ''
                          @ dec h @ ''\">'' @ rest
                  \<and> decimal_value 0 (dec w) = w \<and> decimal_value 0 (dec h) = h))"
proof (intro conjI)
  from assms have loop: "svg_docs_loop c png_dir (enumerate_list glyph_order) [] = Inr docs"
    by (simp add: build_svg_docs_def)
  show gids: "map (\<lambda>(svg, s, e). s) docs
           = filter (\<lambda>gid. png_dir (glyph_order ! gid @ ''.png'') \<noteq> None)
               [0..<length glyph_order]"
    using svg_docs_loop_gids [OF loop]
      gids_enumerate_list [of "\<lambda>name. png_dir (name @ ''.png'') \<noteq> None" glyph_order]
    by simp
  show "sorted_wrt (<) (map (\<lambda>(svg, s, e). s) docs)"
    unfolding gids by (rule sorted_wrt_filter) simp
  show "\<forall>(svg, s, e)\<in>set docs. e = s \<and> s < length glyph_order
              \<and> (\<exists>content w h rest.
                    png_dir (glyph_order ! s @ ''.png'') = Some content
                  \<and> png_size c content = Some (w, h)
                  \<and> svg = svg_text w h (b64encode content)
                  \<and> svg = ''<svg xmlns=\"http://www.w3.org/2000/svg\" width=\"'' @ dec w
                          @ ''\" height=\"'' @ dec h @ ''\" viewBox=\"0 0 '' @ dec w @ '' ''
                          @ dec h @ ''\">'' @ rest
                  \<and> decimal_value 0 (dec w) = w \<and> decimal_value 0 (dec h) = h)"
  proof (clarify)
    fix svg s e
    assume "(svg, s, e) \<in> set docs"
    from svg_docs_loop_docs [OF loop this] obtain gid name content w h where
      mem: "(gid, name) \<in> set (enumerate_list glyph_order)"
      and fl: "png_dir (name @ ''.png'') = Some content"
      and sz: "png_size c content = Some (w, h)"
      and doc: "(svg, s, e) = (svg_text w h (b64encode content), gid, gid)"
      by auto
    from mem have gid: "gid < length glyph_order" "name = glyph_order ! gid"
      by (simp_all add: set_enumerate_list)
    from svg_text_declares [of w h "b64encode content"] obtain rest where
      "svg_text w h (b64encode content) =
         ''<svg xmlns=\"http://www.w3.org/2000/svg\" width=\"'' @ dec w @ ''\" height=\"'' @ dec h
         @ ''\" viewBox=\"0 0 '' @ dec w @ '' '' @ dec h @ ''\">'' @ rest" ..
    with doc gid fl sz
    show "e = s \<and> s < length glyph_order
              \<and> (\<exists>content w h rest.
                    png_dir (glyph_order ! s @ ''.png'') = Some content
                  \<and> png_size c content = Some (w, h)
                  \<and> svg = svg_text w h (b64encode content)
                  \<and> svg = ''<svg xmlns=\"http://www.w3.org/2000/svg\" width=\"'' @ dec w
                          @ ''\" height=\"'' @ dec h @ ''\" viewBox=\"0 0 '' @ dec w @ '' ''
                          @ dec h @ ''\">'' @ rest
                  \<and> decimal_value 0 (dec w) = w \<and> decimal_value 0 (dec h) = h)"
      by (simp add: decimal_value_dec)
  qed
qed

text \<open>
  Claim C6.  When the document builder returns, its documents are exactly those of the glyph
  IDs whose file \<open><glyphName>.png\<close> exists, in ascending glyph-ID order (a glyph without file
  gets none); each document has the singleton range \<open>(gid, gid)\<close>, and its text declares
  \<open>width\<close>, \<open>height\<close> and \<open>viewBox\<close> with the decimal numerals of the pixel size the codec
  reads from that file.  The builder returns whenever the size of every file present can be
  read.
\<close>

theorem svg_documents:
  "(build_svg_docs c glyph_order png_dir = Inr docs \<longrightarrow>
      map (\<lambda>(svg, s, e). s) docs
           = filter (\<lambda>gid. png_dir (glyph_order ! gid @ ''.png'') \<noteq> None)
               [0..<length glyph_order]
         \<and> sorted_wrt (<) (map (\<lambda>(svg, s, e). s) docs)
         \<and> (\<forall>(svg, s, e)\<in>set docs. e = s \<and> s < length glyph_order
              \<and> (\<exists>content w h rest.
                    png_dir (glyph_order ! s @ ''.png'') = Some content
                  \<and> png_size c content = Some (w, h)
                  \<and> svg = svg_text w h (b64encode content)
                  \<and> svg = ''<svg xmlns=\"http://www.w3.org/2000/svg\" width=\"'' @ dec w
                          @ ''\" height=\"'' @ dec h @ ''\" viewBox=\"0 0 '' @ dec w @ '' ''
                          @ dec h @ ''\">'' @ rest
                  \<and> decimal_value 0 (dec w) = w \<and> decimal_value 0 (dec h) = h)))
   \<and> ((\<forall>gid content. gid < length glyph_order
             \<and> png_dir (glyph_order ! gid @ ''.png'') = Some content
             \<longrightarrow> png_size c content \<noteq> None)
        \<longrightarrow> (\<exists>ds. build_svg_docs c glyph_order png_dir = Inr ds))"
  using svg_documents_Inr [of c glyph_order png_dir docs]
    build_svg_docs_total [of glyph_order png_dir c]
  by blast

lemma ex_docs40:
  "build_svg_docs ex_codec ex_order8 ex_dir40 = Inr [(ex_svg40, 7, 7)]"
  by (simp add: build_svg_docs_def enumerate_list_def ex_order8_def ex_dir40_def ex_codec_def
      ex_png_open_def ex_png40_def png_magic_def upt_rec svg_text_def dec.simps b64char_def
      ex_svg40_def)

theorem svg_documents_witness:
  "build_svg_docs ex_codec ex_order8 ex_dir40 = Inr [(ex_svg40, 7, 7)]
   \<and> map (\<lambda>(svg, s, e). s) [(ex_svg40, 7 :: nat, 7 :: nat)]
       = filter (\<lambda>gid. ex_dir40 (ex_order8 ! gid @ ''.png'') \<noteq> None) [0..<length ex_order8]
   \<and> png_size ex_codec ex_png40 = Some (40, 40)"
proof -
  from svg_documents [of ex_codec ex_order8 ex_dir40 "[(ex_svg40, 7, 7)]"] ex_docs40
  have "map (\<lambda>(svg, s, e). s) [(ex_svg40, 7 :: nat, 7 :: nat)]
       = filter (\<lambda>gid. ex_dir40 (ex_order8 ! gid @ ''.png'') \<noteq> None) [0..<length ex_order8]"
    by blast
  moreover have "png_size ex_codec ex_png40 = Some (40, 40)"
    by (simp add: ex_codec_def ex_png_open_def ex_png40_def png_magic_def)
  ultimately show ?thesis using ex_docs40 by blast
qed


lemma build_svg_font_total:
  assumes "\<forall>gid content. gid < length (glyphOrder f)
             \<and> png_dir (glyphOrder f ! gid @ ''.png'') = Some content
             \<longrightarrow> png_size c content \<noteq> None"
  shows "\<exists>f'. build_svg_font c f png_dir = Inr f'"
proof -
  from build_svg_docs_total [OF assms] obtain docs where
    "build_svg_docs c (glyphOrder f) png_dir = Inr docs" ..
  then show ?thesis by (simp add: build_svg_font_def Let_def)
qed

text \<open>
  Claim C10.  Outline stubbing never overwrites: a name that has an outline before keeps that
  very outline, through \<open>add_empty_outlines\<close> and through the whole build; an empty stub is
  inserted only for a name of the glyph order that had none.
\<close>

theorem outlines_preserved:
  "(outline f name = Some g \<longrightarrow> outline (add_empty_outlines f names) name = Some g)
   \<and> (outline f name = None \<longrightarrow>
         outline (add_empty_outlines f names) name
           = (if name \<in> set names then Some empty_glyph else None))
   \<and> (build_svg_font c f png_dir = Inr f' \<and> outline f name = Some g
        \<longrightarrow> outline f' name = Some g)"
  by (auto simp: outline_add_empty_outlines outline_build_svg_font(1))

text \<open>
  Claim C7.  After the outline step, and in the font the build saves, every name of the full
  glyph order has an outline entry, whether or not a PNG exists for it; a name that had none
  gets the empty outline (zero contours, no points).  The build returns whenever the size of
  every PNG present can be read.
\<close>

theorem outlines_stubbed:
  "(\<forall>name\<in>set names. outline (add_empty_outlines f names) name \<noteq> None)
   \<and> (build_svg_font c f png_dir = Inr f' \<longrightarrow>
         glyphOrder f' = glyphOrder f
       \<and> (\<forall>name\<in>set (glyphOrder f). outline f' name \<noteq> None)
       \<and> (\<forall>name\<in>set (glyphOrder f). outline f name = None
             \<longrightarrow> outline f' name = Some empty_glyph))
   \<and> numberOfContours empty_glyph = 0 \<and> coordinates empty_glyph = []
   \<and> ((\<forall>gid content. gid < length (glyphOrder f)
             \<and> png_dir (glyphOrder f ! gid @ ''.png'') = Some content
             \<longrightarrow> png_size c content \<noteq> None)
        \<longrightarrow> (\<exists>r. build_svg_font c f png_dir = Inr r))"
proof (intro conjI impI ballI)
  fix name assume "name \<in> set names"
  then show "outline (add_empty_outlines f names) name \<noteq> None"
    by (simp add: outline_add_empty_outlines split: option.splits)
next
  assume b: "build_svg_font c f png_dir = Inr f'"
  then show "glyphOrder f' = glyphOrder f" by (rule outline_build_svg_font(2))
  fix name assume n: "name \<in> set (glyphOrder f)"
  then show "outline f' name \<noteq> None"
    by (simp add: outline_build_svg_font(1) [OF b] outline_add_empty_outlines
        split: option.splits)
  assume "outline f name = None"
  with n show "outline f' name = Some empty_glyph"
    by (simp add: outline_build_svg_font(1) [OF b] outline_add_empty_outlines)
next
  show "numberOfContours empty_glyph = 0" "coordinates empty_glyph = []"
    by (simp_all add: empty_glyph_def)
next
  assume "\<forall>gid content. gid < length (glyphOrder f)
             \<and> png_dir (glyphOrder f ! gid @ ''.png'') = Some content
             \<longrightarrow> png_size c content \<noteq> None"
  then show "\<exists>r. build_svg_font c f png_dir = Inr r" by (rule build_svg_font_total)
qed

lemma tables_drop_bitmap_tables:
  "tables (drop_bitmap_tables g) tag = (if tag \<in> set bitmap_tags then None else tables g tag)"
  by (simp add: drop_bitmap_tables_def tables_drop_tags)

text \<open>
  Claim C8.  In the font the build saves none of the tables sbix, CBDT, CBLC, EBDT, EBLC is
  present.  The stripper removes exactly these five tags, leaves every other table alone and
  changes nothing when none of the five is present.  It is applied to a font that already
  holds the populated SVG table, which is still there afterwards.
\<close>

theorem bitmap_tables_stripped:
  "(build_svg_font c f png_dir = Inr f' \<longrightarrow>
      tables f' ''sbix'' = None \<and> tables f' ''CBDT'' = None \<and> tables f' ''CBLC'' = None
      \<and> tables f' ''EBDT'' = None \<and> tables f' ''EBLC'' = None
      \<and> (\<exists>docs f2. build_svg_docs c (glyphOrder f) png_dir = Inr docs
             \<and> tables f2 ''SVG '' = Some (newTable\<lparr>docList := Some docs\<rparr>)
             \<and> f' = drop_bitmap_tables f2
             \<and> tables f' ''SVG '' = Some (newTable\<lparr>docList := Some docs\<rparr>)))
   \<and> (\<forall>tag. tables (drop_bitmap_tables g) tag
               = (if tag \<in> {''sbix'', ''CBDT'', ''CBLC'', ''EBDT'', ''EBLC''} then None
                  else tables g tag))
   \<and> (tables g ''sbix'' = None \<and> tables g ''CBDT'' = None \<and> tables g ''CBLC'' = None
        \<and> tables g ''EBDT'' = None \<and> tables g ''EBLC'' = None
      \<longrightarrow> drop_bitmap_tables g = g)
   \<and> ((\<forall>gid content. gid < length (glyphOrder f)
             \<and> png_dir (glyphOrder f ! gid @ ''.png'') = Some content
             \<longrightarrow> png_size c content \<noteq> None)
        \<longrightarrow> (\<exists>r. build_svg_font c f png_dir = Inr r))"
proof (intro conjI impI allI)
  assume b: "build_svg_font c f png_dir = Inr f'"
  then obtain docs where d: "build_svg_docs c (glyphOrder f) png_dir = Inr docs"
    and f': "f' = drop_bitmap_tables
           ((add_empty_outlines f (glyphOrder f))
              \<lparr>tables := (tables (add_empty_outlines f (glyphOrder f)))
                 (''SVG '' \<mapsto> newTable\<lparr>docList := Some docs\<rparr>)\<rparr>)"
    by (rule build_svg_font_Inr)
  show "tables f' ''sbix'' = None" "tables f' ''CBDT'' = None" "tables f' ''CBLC'' = None"
    "tables f' ''EBDT'' = None" "tables f' ''EBLC'' = None"
    unfolding f' by (simp_all add: tables_drop_bitmap_tables bitmap_tags_def)
  let ?f2 = "(add_empty_outlines f (glyphOrder f))
              \<lparr>tables := (tables (add_empty_outlines f (glyphOrder f)))
                 (''SVG '' \<mapsto> newTable\<lparr>docList := Some docs\<rparr>)\<rparr>"
  have "tables ?f2 ''SVG '' = Some (newTable\<lparr>docList := Some docs\<rparr>)" by simp
  moreover have "tables f' ''SVG '' = Some (newTable\<lparr>docList := Some docs\<rparr>)"
    unfolding f' by (simp add: tables_drop_bitmap_tables bitmap_tags_def)
  ultimately show "\<exists>docs f2. build_svg_docs c (glyphOrder f) png_dir = Inr docs
             \<and> tables f2 ''SVG '' = Some (newTable\<lparr>docList := Some docs\<rparr>)
             \<and> f' = drop_bitmap_tables f2
             \<and> tables f' ''SVG '' = Some (newTable\<lparr>docList := Some docs\<rparr>)"
    using d f' by blast
next
  fix tag
  show "tables (drop_bitmap_tables g) tag
               = (if tag \<in> {''sbix'', ''CBDT'', ''CBLC'', ''EBDT'', ''EBLC''} then None
                  else tables g tag)"
    by (simp add: tables_drop_bitmap_tables bitmap_tags_def)
next
  assume "tables g ''sbix'' = None \<and> tables g ''CBDT'' = None \<and> tables g ''CBLC'' = None
        \<and> tables g ''EBDT'' = None \<and> tables g ''EBLC'' = None"
  then show "drop_bitmap_tables g = g"
    by (simp add: drop_bitmap_tables_def bitmap_tags_def)
next
  assume "\<forall>gid content. gid < length (glyphOrder f)
             \<and> png_dir (glyphOrder f ! gid @ ''.png'') = Some content
             \<longrightarrow> png_size c content \<noteq> None"
  then show "\<exists>r. build_svg_font c f png_dir = Inr r" by (rule build_svg_font_total)
qed


lemma ex_build:
  "\<exists>f'. build_svg_font ex_codec ex_bitmap_font ex_dir40 = Inr f'"
proof (rule build_svg_font_total)
  show "\<forall>gid content. gid < length (glyphOrder ex_bitmap_font)
          \<and> ex_dir40 (glyphOrder ex_bitmap_font ! gid @ ''.png'') = Some content
          \<longrightarrow> png_size ex_codec content \<noteq> None"
    by (auto simp: ex_dir40_def ex_codec_def ex_png_open_def ex_png40_def png_magic_def
        split: if_splits)
qed

lemma ex_outlines:
  "outline ex_bitmap_font ''g0'' = Some ex_outline" "outline ex_bitmap_font ''g7'' = None"
  by (simp_all add: outline_def ex_bitmap_font_def newTable_def)

theorem outlines_preserved_witness:
  "outline ex_bitmap_font ''g0'' = Some ex_outline
   \<and> outline (add_empty_outlines ex_bitmap_font [''g0'', ''g7'']) ''g0'' = Some ex_outline
   \<and> outline ex_bitmap_font ''g7'' = None
   \<and> outline (add_empty_outlines ex_bitmap_font [''g0'', ''g7'']) ''g7'' = Some empty_glyph
   \<and> (\<exists>f'. build_svg_font ex_codec ex_bitmap_font ex_dir40 = Inr f'
          \<and> outline f' ''g0'' = Some ex_outline)"
proof -
  from ex_build obtain f' where b: "build_svg_font ex_codec ex_bitmap_font ex_dir40 = Inr f'" ..
  from outlines_preserved [of ex_bitmap_font "''g0''" ex_outline "[''g0'', ''g7'']"
      ex_codec ex_dir40 f'] ex_outlines(1) b
  have "outline (add_empty_outlines ex_bitmap_font [''g0'', ''g7'']) ''g0'' = Some ex_outline"
    and "outline f' ''g0'' = Some ex_outline"
    by simp_all
  moreover from outlines_preserved [of ex_bitmap_font "''g7''" _ "[''g0'', ''g7'']"] ex_outlines(2)
  have "outline (add_empty_outlines ex_bitmap_font [''g0'', ''g7'']) ''g7'' = Some empty_glyph"
    by simp
  ultimately show ?thesis using ex_outlines b by blast
qed

theorem outlines_stubbed_witness:
  "outline ex_bitmap_font ''g7'' = None
   \<and> ex_dir40 ''g0.png'' = None
   \<and> (\<exists>f'. build_svg_font ex_codec ex_bitmap_font ex_dir40 = Inr f'
          \<and> glyphOrder f' = [''g0'', ''g7'']
          \<and> outline f' ''g0'' \<noteq> None \<and> outline f' ''g7'' = Some empty_glyph)"
proof -
  from ex_build obtain f' where b: "build_svg_font ex_codec ex_bitmap_font ex_dir40 = Inr f'" ..
  have go: "glyphOrder ex_bitmap_font = [''g0'', ''g7'']" by (simp add: ex_bitmap_font_def)
  from outlines_stubbed [of "[]" ex_bitmap_font ex_codec ex_dir40 f'] b go ex_outlines(2)
  have "glyphOrder f' = [''g0'', ''g7'']" "outline f' ''g0'' \<noteq> None"
    "outline f' ''g7'' = Some empty_glyph"
    by simp_all
  moreover have "ex_dir40 ''g0.png'' = None" by (simp add: ex_dir40_def)
  ultimately show ?thesis using b ex_outlines(2) by blast
qed

theorem bitmap_tables_stripped_witness:
  "tables ex_bitmap_font ''sbix'' \<noteq> None \<and> tables ex_bitmap_font ''CBDT'' \<noteq> None
   \<and> tables ex_bitmap_font ''CBLC'' \<noteq> None
   \<and> tables ex_bitmap_font ''EBDT'' = None \<and> tables ex_bitmap_font ''EBLC'' = None
   \<and> (\<exists>f'. build_svg_font ex_codec ex_bitmap_font ex_dir40 = Inr f'
          \<and> tables f' ''sbix'' = None \<and> tables f' ''CBDT'' = None \<and> tables f' ''CBLC'' = None
          \<and> tables f' ''EBDT'' = None \<and> tables f' ''EBLC'' = None
          \<and> tables f' ''SVG '' \<noteq> None \<and> tables f' ''glyf'' \<noteq> None)"
proof -
  from ex_build obtain f' where b: "build_svg_font ex_codec ex_bitmap_font ex_dir40 = Inr f'" ..
  from bitmap_tables_stripped [of ex_codec ex_bitmap_font ex_dir40 f' f'] b
  have st: "tables f' ''sbix'' = None" "tables f' ''CBDT'' = None" "tables f' ''CBLC'' = None"
    "tables f' ''EBDT'' = None" "tables f' ''EBLC'' = None" "tables f' ''SVG '' \<noteq> None"
    by auto
  from b have "outline f' ''g0'' = Some ex_outline"
    by (simp add: outline_build_svg_font(1) outline_add_empty_outlines ex_outlines)
  then have "tables f' ''glyf'' \<noteq> None" by (auto simp: outline_def split: option.splits)
  moreover have "tables ex_bitmap_font ''sbix'' \<noteq> None" "tables ex_bitmap_font ''CBDT'' \<noteq> None"
    "tables ex_bitmap_font ''CBLC'' \<noteq> None" "tables ex_bitmap_font ''EBDT'' = None"
    "tables ex_bitmap_font ''EBLC'' = None"
    by (simp_all add: ex_bitmap_font_def)
  ultimately show ?thesis using b st by blast
qed

section \<open>Bitmap extraction and the sbix builder\<close>

lemma extract_loop_images:
  assumes "extract_loop c sb cb fc f sz names (d0, im0) = Inr (d, im)"
  shows "(\<forall>n\<in>set names. \<exists>r. glyph_image c sb cb fc f sz n = Inr r)
       \<and> (\<forall>n. map_of im n =
              (case glyph_image c sb cb fc f sz n of
                 Inr (Some img) \<Rightarrow> if n \<in> set names then Some img else map_of im0 n
               | _ \<Rightarrow> map_of im0 n))
       \<and> (\<forall>n. d (n @ ''.png'') =
              (case glyph_image c sb cb fc f sz n of
                 Inr (Some img) \<Rightarrow>
                   if n \<in> set names then Some (png_save c img) else d0 (n @ ''.png'')
               | _ \<Rightarrow> d0 (n @ ''.png'')))
       \<and> (distinct (map fst im0) \<longrightarrow> distinct (map fst im))"
  using assms
proof (induction names arbitrary: d0 im0)
  case Nil
  then show ?case by (auto split: sum.splits option.splits)
next
  case (Cons x names)
  show ?case
  proof (cases "glyph_image c sb cb fc f sz x")
    case (Inl e)
    with Cons.prems show ?thesis by simp
  next
    case (Inr r)
    show ?thesis
    proof (cases r)
      case None
      with Inr Cons.prems have "extract_loop c sb cb fc f sz names (d0, im0) = Inr (d, im)"
        by simp
      from Cons.IH [OF this] Inr None show ?thesis
        by (auto split: sum.splits option.splits)
    next
      case (Some img)
      with Inr Cons.prems have
        "extract_loop c sb cb fc f sz names
           (d0(x @ ''.png'' \<mapsto> png_save c img), AList.update x img im0) = Inr (d, im)"
        by simp
      from Cons.IH [OF this] Inr Some show ?thesis
        by (auto simp: update_conv' distinct_update split: sum.splits option.splits)
    qed
  qed
qed

lemma extract_loop_keys:
  assumes "extract_loop c sb cb fc f sz names (d0, im0) = Inr (d, im)"
  shows "set (map fst im) \<subseteq> set (map fst im0) \<union> set names"
  using assms
proof (induction names arbitrary: d0 im0)
  case Nil
  then show ?case by simp
next
  case (Cons x names)
  show ?case
  proof (cases "glyph_image c sb cb fc f sz x")
    case (Inl e)
    with Cons.prems show ?thesis by simp
  next
    case (Inr r)
    show ?thesis
    proof (cases r)
      case None
      with Inr Cons.prems have "extract_loop c sb cb fc f sz names (d0, im0) = Inr (d, im)"
        by simp
      from Cons.IH [OF this] show ?thesis by auto
    next
      case (Some img)
      with Inr Cons.prems have
        "extract_loop c sb cb fc f sz names
           (d0(x @ ''.png'' \<mapsto> png_save c img), AList.update x img im0) = Inr (d, im)"
        by simp
      from Cons.IH [OF this] have
        "set (map fst im) \<subseteq> set (map fst (AList.update x img im0)) \<union> set names" .
      moreover have "set (map fst (AList.update x img im0)) = insert x (set (map fst im0))"
        using dom_update [of x img im0] by simp
      ultimately show ?thesis by auto
    qed
  qed
qed

lemma extract_loop_total:
  assumes "\<forall>n\<in>set names. \<exists>r. glyph_image c sb cb fc f sz n = Inr r"
  shows "\<exists>res. extract_loop c sb cb fc f sz names st = Inr res"
  using assms
proof (induction names arbitrary: st)
  case Nil
  show ?case by simp
next
  case (Cons x names)
  obtain d0 im0 where st: "st = (d0, im0)" by (cases st)
  from Cons.prems obtain r where r: "glyph_image c sb cb fc f sz x = Inr r" by auto
  from Cons.prems have rest: "\<forall>n\<in>set names. \<exists>r. glyph_image c sb cb fc f sz n = Inr r" by simp
  show ?case
    using Cons.IH [OF rest] r st by (cases r) simp_all
qed

lemmas ex_eval =
  extract_images_def chosen_sbix_def chosen_cbdt_def sbix_strikes_def cbdt_strikes_def
  dict_values_def glyph_image_def reuse_bitmap_def render_fallback_def getGlyphID_def
  enumerate_list_def render_glyph_def frombytes_L_def alpha_image_def decode_cbdt_def
  cbdt_blob_def png_magic_def py_slice_def ex_codec_def ex_png_open_def ex_png_save_def
  ex_face_def ex_png1_def ex_img1_def ex_rendered_def newTable_def upt_rec Let_def

lemma ex_mixed_run:
  "\<exists>d. extract_images ex_codec ex_mixed_font ex_face Map.empty 128
        = Inr (ex_mixed_font, [(''a'', ex_rendered), (''d'', ex_img1)], d)"
  by (simp add: ex_eval ex_mixed_font_def)

lemma ex_both_run:
  "\<exists>d. extract_images ex_codec ex_both_font ex_face Map.empty 128
        = Inr (ex_both_font, [(''a'', ex_rendered)], d)"
  by (simp add: ex_eval ex_both_font_def)

lemma ex_corrupt_sbix_run:
  "extract_images ex_codec ex_corrupt_sbix_font ex_face Map.empty 128 = Inl ImageDecodeError"
  by (simp add: ex_eval ex_corrupt_sbix_font_def)

lemma ex_corrupt_cbdt_run:
  "\<exists>d. extract_images ex_codec ex_corrupt_cbdt_font ex_face Map.empty 128
        = Inr (ex_corrupt_cbdt_font, [(''a'', ex_rendered)], d)"
  by (simp add: ex_eval ex_corrupt_cbdt_font_def)

lemma getGlyphID_known:
  assumes "n \<in> set (glyphOrder f)"
  shows "\<exists>gid. getGlyphID f n = Inr gid \<and> gid < length (glyphOrder f) \<and> glyphOrder f ! gid = n"
proof -
  let ?rm = "rev (map (\<lambda>(i, g). (g, i)) (enumerate_list (glyphOrder f)))"
  have "fst ` set ?rm = set (glyphOrder f)"
    by (force simp: enumerate_list_map image_iff in_set_conv_nth)
  with assms have "map_of ?rm n \<noteq> None" by (simp only: map_of_eq_None_iff not_not)
  then obtain gid where gid: "map_of ?rm n = Some gid" by blast
  then have "(n, gid) \<in> set ?rm" by (rule map_of_SomeD)
  then have "gid < length (glyphOrder f) \<and> glyphOrder f ! gid = n"
    by (auto simp: enumerate_list_map)
  with gid show ?thesis by (simp add: getGlyphID_def)
qed

lemma render_fallback_omits:
  assumes "getGlyphID f n = Inr gid"
    and "load_glyph fc (if num_fixed_sizes fc \<noteq> 0 then SelectSize 0 else PixelSizes 0 sz) gid = None
         \<or> (\<exists>bmp. load_glyph fc (if num_fixed_sizes fc \<noteq> 0 then SelectSize 0 else PixelSizes 0 sz) gid
                    = Some bmp \<and> (bmp_width bmp = 0 \<or> bmp_rows bmp = 0))"
  shows "render_fallback fc f sz n = Inr None"
  using assms by (auto simp: render_fallback_def render_glyph_def)

lemma extract_images_Inr:
  assumes "extract_images c f fc out_dir sz = Inr (f', images, out_dir')"
  shows "f' = f"
    and "extract_loop c (chosen_sbix f) (chosen_cbdt f) fc f sz (glyphOrder f) (out_dir, [])
           = Inr (out_dir', images)"
  using assms by (auto simp: extract_images_def split: sum.splits)

text \<open>
  Claim C9.  When an extraction run returns, the keys of its image dictionary are distinct
  names of the font's glyph order, and for every glyph of the order the dictionary holds
  exactly what the per-glyph step produced: the image when there is one (also written to
  \<open><glyphName>.png\<close>), no entry at all when no bitmap was reused and the render failed or was
  empty.  The run returns whenever no glyph raises.
\<close>

theorem glyph_image_set:
  "(extract_images c f fc out_dir sz = Inr (f', images, out_dir') \<longrightarrow>
      f' = f
    \<and> distinct (dict_keys images)
    \<and> set (dict_keys images) \<subseteq> set (glyphOrder f)
    \<and> (\<forall>n\<in>set (glyphOrder f).
          glyph_image c (chosen_sbix f) (chosen_cbdt f) fc f sz n = Inr (map_of images n))
    \<and> (\<forall>n\<in>set (dict_keys images). \<exists>img. map_of images n = Some img
          \<and> glyph_image c (chosen_sbix f) (chosen_cbdt f) fc f sz n = Inr (Some img)
          \<and> out_dir' (n @ ''.png'') = Some (png_save c img))
    \<and> (\<forall>n\<in>set (glyphOrder f).
          reuse_bitmap c (chosen_sbix f) (chosen_cbdt f) n = Inr None
          \<and> render_fallback fc f sz n = Inr None
          \<longrightarrow> n \<notin> set (dict_keys images)))
   \<and> ((\<forall>n\<in>set (glyphOrder f).
          \<exists>r. glyph_image c (chosen_sbix f) (chosen_cbdt f) fc f sz n = Inr r)
        \<longrightarrow> (\<exists>res. extract_images c f fc out_dir sz = Inr res))"
proof (intro conjI impI)
  assume run: "extract_images c f fc out_dir sz = Inr (f', images, out_dir')"
  let ?G = "glyph_image c (chosen_sbix f) (chosen_cbdt f) fc f sz"
  from extract_images_Inr [OF run] have f': "f' = f"
    and loop: "extract_loop c (chosen_sbix f) (chosen_cbdt f) fc f sz (glyphOrder f) (out_dir, [])
           = Inr (out_dir', images)"
    by simp_all
  from extract_loop_images [OF loop] have
    ok: "\<forall>n\<in>set (glyphOrder f). \<exists>r. ?G n = Inr r"
    and look: "\<And>n. map_of images n =
              (case ?G n of
                 Inr (Some img) \<Rightarrow> if n \<in> set (glyphOrder f) then Some img else map_of [] n
               | _ \<Rightarrow> map_of [] n)"
    and files: "\<And>n. out_dir' (n @ ''.png'') =
              (case ?G n of
                 Inr (Some img) \<Rightarrow>
                   if n \<in> set (glyphOrder f) then Some (png_save c img) else out_dir (n @ ''.png'')
               | _ \<Rightarrow> out_dir (n @ ''.png''))"
    and dist: "distinct (map fst images)"
    by simp_all
  show "f' = f" by (rule f')
  show "distinct (dict_keys images)" using dist by (simp add: dict_keys_def)
  show keys: "set (dict_keys images) \<subseteq> set (glyphOrder f)"
    using extract_loop_keys [OF loop] by (simp add: dict_keys_def)
  show all: "\<forall>n\<in>set (glyphOrder f). ?G n = Inr (map_of images n)"
  proof
    fix n assume n: "n \<in> set (glyphOrder f)"
    with ok obtain r where r: "?G n = Inr r" by blast
    with look [of n] n show "?G n = Inr (map_of images n)"
      by (cases r) simp_all
  qed
  show "\<forall>n\<in>set (dict_keys images). \<exists>img. map_of images n = Some img
          \<and> ?G n = Inr (Some img) \<and> out_dir' (n @ ''.png'') = Some (png_save c img)"
  proof
    fix n assume k: "n \<in> set (dict_keys images)"
    then have "n \<in> fst ` set images" by (simp add: dict_keys_def)
    then obtain img where img: "map_of images n = Some img"
      by (metis domD dom_map_of_conv_image_fst)
    from k keys have n: "n \<in> set (glyphOrder f)" by blast
    with all img have g: "?G n = Inr (Some img)" by simp
    with files [of n] n have "out_dir' (n @ ''.png'') = Some (png_save c img)" by simp
    with img g show "\<exists>img. map_of images n = Some img
          \<and> ?G n = Inr (Some img) \<and> out_dir' (n @ ''.png'') = Some (png_save c img)"
      by blast
  qed
  show "\<forall>n\<in>set (glyphOrder f).
          reuse_bitmap c (chosen_sbix f) (chosen_cbdt f) n = Inr None
          \<and> render_fallback fc f sz n = Inr None
          \<longrightarrow> n \<notin> set (dict_keys images)"
  proof (intro ballI impI)
    fix n assume n: "n \<in> set (glyphOrder f)"
      and none: "reuse_bitmap c (chosen_sbix f) (chosen_cbdt f) n = Inr None
          \<and> render_fallback fc f sz n = Inr None"
    then have "?G n = Inr None" by (simp add: glyph_image_def)
    with all n have "map_of images n = None" by simp
    then show "n \<notin> set (dict_keys images)"
      by (simp add: dict_keys_def map_of_eq_None_iff)
  qed
next
  assume "\<forall>n\<in>set (glyphOrder f).
          \<exists>r. glyph_image c (chosen_sbix f) (chosen_cbdt f) fc f sz n = Inr r"
  from extract_loop_total [OF this, of "(out_dir, [])"]
  show "\<exists>res. extract_images c f fc out_dir sz = Inr res"
    by (auto simp: extract_images_def)
qed

theorem glyph_image_set_witness:
  "\<exists>d. extract_images ex_codec ex_mixed_font ex_face Map.empty 128
        = Inr (ex_mixed_font, [(''a'', ex_rendered), (''d'', ex_img1)], d)
      \<and> set (dict_keys [(''a'', ex_rendered), (''d'', ex_img1)]) \<subseteq> set (glyphOrder ex_mixed_font)
      \<and> glyph_image ex_codec (chosen_sbix ex_mixed_font) (chosen_cbdt ex_mixed_font) ex_face
           ex_mixed_font 128 ''b'' = Inr None
      \<and> glyph_image ex_codec (chosen_sbix ex_mixed_font) (chosen_cbdt ex_mixed_font) ex_face
           ex_mixed_font 128 ''c'' = Inr None
      \<and> glyph_image ex_codec (chosen_sbix ex_mixed_font) (chosen_cbdt ex_mixed_font) ex_face
           ex_mixed_font 128 ''d'' = Inr (Some ex_img1)
      \<and> d ''a.png'' = Some (png_save ex_codec ex_rendered)
      \<and> d ''b.png'' = None"
proof -
  from ex_mixed_run obtain d where
    run: "extract_images ex_codec ex_mixed_font ex_face Map.empty 128
        = Inr (ex_mixed_font, [(''a'', ex_rendered), (''d'', ex_img1)], d)" ..
  let ?G = "glyph_image ex_codec (chosen_sbix ex_mixed_font) (chosen_cbdt ex_mixed_font) ex_face
           ex_mixed_font 128"
  from glyph_image_set [of ex_codec ex_mixed_font ex_face Map.empty 128 ex_mixed_font
      "[(''a'', ex_rendered), (''d'', ex_img1)]" d] run
  have keys: "set (dict_keys [(''a'', ex_rendered), (''d'', ex_img1)]) \<subseteq> set (glyphOrder ex_mixed_font)"
    and all: "\<forall>n\<in>set (glyphOrder ex_mixed_font).
          ?G n = Inr (map_of [(''a'', ex_rendered), (''d'', ex_img1)] n)"
    and files: "\<forall>n\<in>set (dict_keys [(''a'', ex_rendered), (''d'', ex_img1)]).
          \<exists>img. map_of [(''a'', ex_rendered), (''d'', ex_img1)] n = Some img
          \<and> ?G n = Inr (Some img) \<and> d (n @ ''.png'') = Some (png_save ex_codec img)"
    by blast+
  have go: "glyphOrder ex_mixed_font = [''a'', ''b'', ''c'', ''d'']"
    by (simp add: ex_mixed_font_def)
  from all go have "?G ''b'' = Inr None" "?G ''c'' = Inr None" "?G ''d'' = Inr (Some ex_img1)"
    by simp_all
  moreover from files have "d ''a.png'' = Some (png_save ex_codec ex_rendered)"
    by (simp add: dict_keys_def)
  moreover have "d ''b.png'' = None"
    using run by (simp add: ex_eval ex_mixed_font_def) auto
  ultimately show ?thesis using run keys by blast
qed

text \<open>
  Claim C1, as the code has it.  For each glyph the sources are tried in this order: an entry
  of the chosen sbix strike with non-empty data is decoded and used; when the chosen sbix
  strike has no entry for the glyph (or no sbix strike is chosen) and the chosen CBDT strike
  has an entry, the CBDT record decoder is run and its result used if there is one; in every
  other case the result is that of the render fallback.  A glyph whose sbix entry exists with
  empty data goes straight to the render fallback: the CBDT source is behind the \<open>elif\<close> of
  the sbix test and is not consulted.
\<close>

theorem source_priority:
  "(sb = Some s \<and> map_of (glyphData s) n = Some e \<and> data e \<noteq> []
      \<and> png_open c (data e) = Some img
      \<longrightarrow> glyph_image c sb cb fc f sz n = Inr (Some img))
   \<and> ((sb = None \<or> (\<exists>s'. sb = Some s' \<and> map_of (glyphData s') n = None))
      \<and> cb = Some st \<and> map_of st n = Some g \<and> cbdt_data g = Some d \<and> d \<noteq> []
      \<and> decode_cbdt c d = Some img
      \<longrightarrow> glyph_image c sb cb fc f sz n = Inr (Some img))
   \<and> (sb = Some s \<and> map_of (glyphData s) n = Some e \<and> data e = []
      \<longrightarrow> glyph_image c sb cb fc f sz n = render_fallback fc f sz n)
   \<and> ((sb = None \<or> (\<exists>s'. sb = Some s' \<and> map_of (glyphData s') n = None))
      \<and> (cb = None \<or> (\<exists>st'. cb = Some st' \<and> (map_of st' n = None
            \<or> (\<exists>g'. map_of st' n = Some g' \<and> (cbdt_data g' = None \<or> cbdt_data g' = Some []
                  \<or> (\<exists>d'. cbdt_data g' = Some d' \<and> decode_cbdt c d' = None))))))
      \<longrightarrow> glyph_image c sb cb fc f sz n = render_fallback fc f sz n)"
proof (intro conjI impI)
  assume "sb = Some s \<and> map_of (glyphData s) n = Some e \<and> data e \<noteq> []
      \<and> png_open c (data e) = Some img"
  then show "glyph_image c sb cb fc f sz n = Inr (Some img)"
    by (simp add: glyph_image_def reuse_bitmap_def)
next
  assume a: "(sb = None \<or> (\<exists>s'. sb = Some s' \<and> map_of (glyphData s') n = None))
      \<and> cb = Some st \<and> map_of st n = Some g \<and> cbdt_data g = Some d \<and> d \<noteq> []
      \<and> decode_cbdt c d = Some img"
  then have "st \<noteq> []" by auto
  with a have "reuse_bitmap c sb cb n = Inr (Some img)"
    by (auto simp: reuse_bitmap_def)
  then show "glyph_image c sb cb fc f sz n = Inr (Some img)"
    by (simp add: glyph_image_def)
next
  assume "sb = Some s \<and> map_of (glyphData s) n = Some e \<and> data e = []"
  then have "reuse_bitmap c sb cb n = Inr None"
    by (simp add: reuse_bitmap_def)
  then show "glyph_image c sb cb fc f sz n = render_fallback fc f sz n"
    by (simp add: glyph_image_def)
next
  assume a: "(sb = None \<or> (\<exists>s'. sb = Some s' \<and> map_of (glyphData s') n = None))
      \<and> (cb = None \<or> (\<exists>st'. cb = Some st' \<and> (map_of st' n = None
            \<or> (\<exists>g'. map_of st' n = Some g' \<and> (cbdt_data g' = None \<or> cbdt_data g' = Some []
                  \<or> (\<exists>d'. cbdt_data g' = Some d' \<and> decode_cbdt c d' = None))))))"
  then have "reuse_bitmap c sb cb n = Inr None"
    by (auto simp: reuse_bitmap_def split: option.splits)
  then show "glyph_image c sb cb fc f sz n = render_fallback fc f sz n"
    by (simp add: glyph_image_def)
qed

lemma ex_both_chosen:
  "chosen_sbix ex_both_font
     = Some \<lparr>ppem = 128, resolution = 72, glyphData = [(''a'', \<lparr>data = []\<rparr>)], glyphs = []\<rparr>"
  "chosen_cbdt ex_both_font = Some [(''a'', \<lparr>cbdt_data = Some ex_png1\<rparr>)]"
  by (simp_all add: ex_both_font_def chosen_sbix_def chosen_cbdt_def sbix_strikes_def
      cbdt_strikes_def dict_values_def newTable_def)

lemma ex_decode_png1: "decode_cbdt ex_codec ex_png1 = Some ex_img1"
  by (simp add: ex_eval)

lemma ex_render_a: "render_fallback ex_face ex_both_font 128 ''a'' = Inr (Some ex_rendered)"
  by (simp add: ex_eval ex_both_font_def)

text \<open>
  A font whose chosen sbix strike has an entry with empty data for \<open>a\<close> and whose chosen CBDT
  strike has a decodable record for \<open>a\<close>: the extracted image is the rendered one, not the one
  of the CBDT record.
\<close>

theorem source_priority_counterexample:
  "map_of (glyphData (the (chosen_sbix ex_both_font))) ''a'' = Some \<lparr>data = []\<rparr>
   \<and> map_of (the (chosen_cbdt ex_both_font)) ''a'' = Some \<lparr>cbdt_data = Some ex_png1\<rparr>
   \<and> decode_cbdt ex_codec ex_png1 = Some ex_img1
   \<and> glyph_image ex_codec (chosen_sbix ex_both_font) (chosen_cbdt ex_both_font) ex_face
        ex_both_font 128 ''a'' = Inr (Some ex_rendered)
   \<and> ex_rendered \<noteq> ex_img1
   \<and> (\<exists>d. extract_images ex_codec ex_both_font ex_face Map.empty 128
             = Inr (ex_both_font, [(''a'', ex_rendered)], d))"
proof -
  have "glyph_image ex_codec (chosen_sbix ex_both_font) (chosen_cbdt ex_both_font) ex_face
        ex_both_font 128 ''a'' = Inr (Some ex_rendered)"
    by (simp add: ex_both_chosen glyph_image_def reuse_bitmap_def ex_render_a)
  moreover have "ex_rendered \<noteq> ex_img1" by (simp add: ex_rendered_def ex_img1_def)
  ultimately show ?thesis using ex_both_run ex_decode_png1 by (simp add: ex_both_chosen)
qed

theorem source_priority_witness:
  "glyph_image ex_codec (chosen_sbix ex_mixed_font) (chosen_cbdt ex_mixed_font) ex_face
      ex_mixed_font 128 ''d'' = Inr (Some ex_img1)
   \<and> glyph_image ex_codec None (chosen_cbdt ex_both_font) ex_face ex_both_font 128 ''a''
       = Inr (Some ex_img1)
   \<and> glyph_image ex_codec (chosen_sbix ex_both_font) (chosen_cbdt ex_both_font) ex_face
        ex_both_font 128 ''a'' = Inr (Some ex_rendered)
   \<and> glyph_image ex_codec None (chosen_cbdt ex_corrupt_cbdt_font) ex_face
        ex_corrupt_cbdt_font 128 ''b'' = Inr None"
proof -
  let ?s = "\<lparr>ppem = 128, resolution = 72, glyphData = [(''d'', \<lparr>data = ex_png1\<rparr>)],
             glyphs = []\<rparr> :: strike"
  have s: "chosen_sbix ex_mixed_font = Some ?s"
    by (simp add: ex_mixed_font_def chosen_sbix_def sbix_strikes_def dict_values_def newTable_def)
  have o: "png_open ex_codec ex_png1 = Some ex_img1" by (simp add: ex_eval)
  from source_priority [of "chosen_sbix ex_mixed_font" ?s "''d''" "\<lparr>data = ex_png1\<rparr>"
      ex_codec ex_img1 "chosen_cbdt ex_mixed_font" ex_face ex_mixed_font 128] s o
  have 1: "glyph_image ex_codec (chosen_sbix ex_mixed_font) (chosen_cbdt ex_mixed_font) ex_face
      ex_mixed_font 128 ''d'' = Inr (Some ex_img1)"
    by (simp add: ex_png1_def)
  from source_priority [of None _ "''a''" _ ex_codec ex_img1 "chosen_cbdt ex_both_font"
      ex_face ex_both_font 128 "[(''a'', \<lparr>cbdt_data = Some ex_png1\<rparr>)]"
      "\<lparr>cbdt_data = Some ex_png1\<rparr>" ex_png1] ex_both_chosen(2) ex_decode_png1
  have 2: "glyph_image ex_codec None (chosen_cbdt ex_both_font) ex_face ex_both_font 128 ''a''
       = Inr (Some ex_img1)"
    by (simp add: ex_png1_def)
  from source_priority [of "chosen_sbix ex_both_font"
      "\<lparr>ppem = 128, resolution = 72, glyphData = [(''a'', \<lparr>data = []\<rparr>)], glyphs = []\<rparr>"
      "''a''" "\<lparr>data = []\<rparr>" ex_codec _ "chosen_cbdt ex_both_font" ex_face ex_both_font 128]
    ex_both_chosen(1) ex_render_a
  have 3: "glyph_image ex_codec (chosen_sbix ex_both_font) (chosen_cbdt ex_both_font) ex_face
        ex_both_font 128 ''a'' = Inr (Some ex_rendered)"
    by simp
  have c: "chosen_cbdt ex_corrupt_cbdt_font = Some [(''b'', \<lparr>cbdt_data = Some [0]\<rparr>)]"
    by (simp add: ex_corrupt_cbdt_font_def chosen_cbdt_def cbdt_strikes_def newTable_def)
  have dn: "decode_cbdt ex_codec [0] = None" by (simp add: ex_eval)
  have rb: "render_fallback ex_face ex_corrupt_cbdt_font 128 ''b'' = Inr None"
    by (simp add: ex_eval ex_corrupt_cbdt_font_def)
  from source_priority [of None _ "''b''" _ ex_codec _ "chosen_cbdt ex_corrupt_cbdt_font"
      ex_face ex_corrupt_cbdt_font 128] c dn rb
  have 4: "glyph_image ex_codec None (chosen_cbdt ex_corrupt_cbdt_font) ex_face
        ex_corrupt_cbdt_font 128 ''b'' = Inr None"
    by simp
  from 1 2 3 4 show ?thesis by blast
qed

lemma sbix_decode_failure_aborts:
  assumes "chosen_sbix f = Some s" and "map_of (glyphData s) n = Some e" and "data e \<noteq> []"
    and "png_open c (data e) = None" and "n \<in> set (glyphOrder f)"
  shows "\<exists>err. extract_images c f fc out_dir sz = Inl err"
proof (rule ccontr)
  assume "\<not> (\<exists>err. extract_images c f fc out_dir sz = Inl err)"
  then obtain f' images d where run: "extract_images c f fc out_dir sz = Inr (f', images, d)"
    by (cases "extract_images c f fc out_dir sz") auto
  from extract_images_Inr(2) [OF run] extract_loop_images assms(5)
  obtain r where "glyph_image c (chosen_sbix f) (chosen_cbdt f) fc f sz n = Inr r" by blast
  moreover have "glyph_image c (chosen_sbix f) (chosen_cbdt f) fc f sz n = Inl ImageDecodeError"
    using assms(1-4) by (simp add: glyph_image_def reuse_bitmap_def)
  ultimately show False by simp
qed

lemma cbdt_decode_failure_recovered:
  assumes "sb = None \<or> (\<exists>s. sb = Some s \<and> map_of (glyphData s) n = None)"
  shows "reuse_bitmap c sb cb n \<noteq> Inl err"
  using assms by (auto simp: reuse_bitmap_def split: option.splits)

text \<open>
  Claim C2.  A font whose chosen sbix strike holds undecodable bytes for glyph \<open>b\<close>: the decode
  of line 48 is outside any \<open>try\<close>, and the whole run ends with the codec's error although
  glyph \<open>a\<close> renders.  The same bytes in a CBDT record are recovered, and the run returns.
\<close>

theorem sbix_decode_failure_fatal:
  "map_of (glyphData (the (chosen_sbix ex_corrupt_sbix_font))) ''b'' = Some \<lparr>data = [0]\<rparr>
   \<and> png_open ex_codec [0] = None
   \<and> extract_images ex_codec ex_corrupt_sbix_font ex_face Map.empty 128 = Inl ImageDecodeError
   \<and> glyph_image ex_codec (chosen_sbix ex_corrupt_sbix_font) (chosen_cbdt ex_corrupt_sbix_font)
        ex_face ex_corrupt_sbix_font 128 ''a'' = Inr (Some ex_rendered)
   \<and> map_of (the (chosen_cbdt ex_corrupt_cbdt_font)) ''b'' = Some \<lparr>cbdt_data = Some [0]\<rparr>
   \<and> (\<exists>d. extract_images ex_codec ex_corrupt_cbdt_font ex_face Map.empty 128
             = Inr (ex_corrupt_cbdt_font, [(''a'', ex_rendered)], d))"
proof -
  have "map_of (glyphData (the (chosen_sbix ex_corrupt_sbix_font))) ''b'' = Some \<lparr>data = [0]\<rparr>"
    by (simp add: ex_corrupt_sbix_font_def chosen_sbix_def sbix_strikes_def dict_values_def
        newTable_def)
  moreover have "png_open ex_codec [0] = None" by (simp add: ex_eval)
  moreover have "glyph_image ex_codec (chosen_sbix ex_corrupt_sbix_font)
        (chosen_cbdt ex_corrupt_sbix_font) ex_face ex_corrupt_sbix_font 128 ''a''
          = Inr (Some ex_rendered)"
    by (simp add: ex_eval ex_corrupt_sbix_font_def)
  moreover have "map_of (the (chosen_cbdt ex_corrupt_cbdt_font)) ''b''
          = Some \<lparr>cbdt_data = Some [0]\<rparr>"
    by (simp add: ex_corrupt_cbdt_font_def chosen_cbdt_def cbdt_strikes_def newTable_def)
  ultimately show ?thesis using ex_corrupt_sbix_run ex_corrupt_cbdt_run by blast
qed

lemma update_fresh:
  "k \<notin> fst ` set al \<Longrightarrow> AList.update k v al = al @ [(k, v)]"
  by (induction al) auto

lemma embed_loop_frame:
  "ppem (embed_loop c items st) = ppem st
   \<and> resolution (embed_loop c items st) = resolution st
   \<and> glyphData (embed_loop c items st) = glyphData st"
  by (induction items arbitrary: st) auto

lemma embed_loop_glyphs:
  assumes "distinct (map fst (glyphs st) @ map fst items)"
  shows "glyphs (embed_loop c items st)
           = glyphs st @ map (\<lambda>(n, img). (n, \<lparr>glyphName = n, graphicType = ''png '',
                originOffsetX = 0, originOffsetY = 0, imageData = png_save c img\<rparr>)) items"
  using assms
proof (induction items arbitrary: st)
  case Nil
  show ?case by simp
next
  case (Cons it items)
  obtain n img where it: "it = (n, img)" by (cases it)
  let ?g = "\<lparr>glyphName = n, graphicType = ''png '', originOffsetX = 0, originOffsetY = 0,
             imageData = png_save c img\<rparr>"
  from Cons.prems it have fresh: "n \<notin> fst ` set (glyphs st)" by auto
  then have upd: "AList.update n ?g (glyphs st) = glyphs st @ [(n, ?g)]" by (rule update_fresh)
  let ?st = "st\<lparr>glyphs := AList.update n ?g (glyphs st)\<rparr>"
  have "distinct (map fst (glyphs ?st) @ map fst items)"
    using Cons.prems it upd by auto
  from Cons.IH [OF this] upd it show ?case by simp
qed

lemma embed_sbix_table:
  assumes "distinct (map fst images)"
  shows "tables (embed_sbix c f images p r) ''sbix''
           = Some (newTable\<lparr>version := Some 1, tflags := Some 1,
               strikes := Some [(p, \<lparr>ppem = p, resolution = r, glyphData = [],
                 glyphs = map (\<lambda>(n, img). (n, \<lparr>glyphName = n, graphicType = ''png '',
                   originOffsetX = 0, originOffsetY = 0, imageData = png_save c img\<rparr>))
                     images\<rparr>)]\<rparr>)"
proof -
  have "distinct (map fst (glyphs (new_strike p r)) @ map fst images)"
    using assms by (simp add: new_strike_def)
  from embed_loop_glyphs [OF this, of c] embed_loop_frame [of c images "new_strike p r"]
  have "embed_loop c images (new_strike p r)
          = \<lparr>ppem = p, resolution = r, glyphData = [],
             glyphs = map (\<lambda>(n, img). (n, \<lparr>glyphName = n, graphicType = ''png '',
                   originOffsetX = 0, originOffsetY = 0, imageData = png_save c img\<rparr>))
                     images\<rparr>"
    by (simp add: new_strike_def)
  then show ?thesis by (simp add: embed_sbix_def Let_def)
qed

text \<open>
  Claim C5.  For the image set of an extraction run, on a codec that reads back the images
  it writes, the sbix table built from the set has version 1 and exactly one strike, keyed
  and sized by the given ppem, whose glyph records are one per entry of the set, under the
  same names; each record has graphic type \<open>png \<close>, zero origin offsets, and image bytes that
  decode to the very image of the entry.
\<close>

theorem sbix_round_trip:
  assumes "extract_images c f fc out_dir sz = Inr (f', images, out_dir')"
    and "\<forall>(n, img)\<in>set images. png_open c (png_save c img) = Some img"
  shows "\<exists>st. tables (embed_sbix c f' images p r) ''sbix''
             = Some (newTable\<lparr>version := Some 1, tflags := Some 1, strikes := Some [(p, st)]\<rparr>)
           \<and> ppem st = p \<and> resolution st = r
           \<and> dict_keys (glyphs st) = dict_keys images
           \<and> distinct (dict_keys (glyphs st))
           \<and> length (glyphs st) = length images
           \<and> (\<forall>(n, img)\<in>set images. \<exists>gl. map_of (glyphs st) n = Some gl
                 \<and> glyphName gl = n \<and> graphicType gl = ''png ''
                 \<and> originOffsetX gl = 0 \<and> originOffsetY gl = 0
                 \<and> imageData gl = png_save c img
                 \<and> png_open c (imageData gl) = Some img)"
proof -
  let ?mk = "\<lambda>(n, img). (n, \<lparr>glyphName = n, graphicType = ''png '',
                   originOffsetX = 0, originOffsetY = 0, imageData = png_save c img\<rparr>)"
  let ?st = "\<lparr>ppem = p, resolution = r, glyphData = [], glyphs = map ?mk images\<rparr>"
  from extract_images_Inr(2) [OF assms(1)] extract_loop_images
  have dist: "distinct (map fst images)" by fastforce
  have keys: "map fst (map ?mk images) = map fst images" by (induction images) auto
  have "\<exists>gl. map_of (glyphs ?st) n = Some gl
                 \<and> glyphName gl = n \<and> graphicType gl = ''png ''
                 \<and> originOffsetX gl = 0 \<and> originOffsetY gl = 0
                 \<and> imageData gl = png_save c img
                 \<and> png_open c (imageData gl) = Some img"
    if mem: "(n, img) \<in> set images" for n img
  proof -
    from mem have "?mk (n, img) \<in> set (map ?mk images)" by (simp only: set_map image_eqI)
    then have "(n, \<lparr>glyphName = n, graphicType = ''png '', originOffsetX = 0,
                    originOffsetY = 0, imageData = png_save c img\<rparr>) \<in> set (map ?mk images)"
      by simp
    moreover have "distinct (map fst (map ?mk images))" by (simp only: keys dist)
    ultimately have "map_of (map ?mk images) n
        = Some \<lparr>glyphName = n, graphicType = ''png '', originOffsetX = 0,
                    originOffsetY = 0, imageData = png_save c img\<rparr>"
      by (rule map_of_is_SomeI [rotated])
    moreover from assms(2) mem have "png_open c (png_save c img) = Some img" by auto
    ultimately show ?thesis by simp
  qed
  then have recs: "\<forall>(n, img)\<in>set images. \<exists>gl. map_of (glyphs ?st) n = Some gl
                 \<and> glyphName gl = n \<and> graphicType gl = ''png ''
                 \<and> originOffsetX gl = 0 \<and> originOffsetY gl = 0
                 \<and> imageData gl = png_save c img
                 \<and> png_open c (imageData gl) = Some img"
    by blast
  have "tables (embed_sbix c f' images p r) ''sbix''
             = Some (newTable\<lparr>version := Some 1, tflags := Some 1, strikes := Some [(p, ?st)]\<rparr>)"
    by (rule embed_sbix_table [OF dist])
  moreover have "ppem ?st = p" "resolution ?st = r" by simp_all
  moreover have "dict_keys (glyphs ?st) = dict_keys images"
    by (simp only: dict_keys_def strike.simps keys)
  moreover have "distinct (dict_keys (glyphs ?st))"
    by (simp only: dict_keys_def strike.simps keys dist)
  moreover have "length (glyphs ?st) = length images" by simp
  ultimately show ?thesis using recs by blast
qed

lemma ex_round_trip:
  "png_open ex_codec (png_save ex_codec ex_rendered) = Some ex_rendered"
  "png_open ex_codec (png_save ex_codec ex_img1) = Some ex_img1"
  by (simp_all add: ex_eval)

theorem sbix_round_trip_witness:
  "\<exists>d st. extract_images ex_codec ex_mixed_font ex_face Map.empty 128
        = Inr (ex_mixed_font, [(''a'', ex_rendered), (''d'', ex_img1)], d)
      \<and> png_open ex_codec (png_save ex_codec ex_rendered) = Some ex_rendered
      \<and> png_open ex_codec (png_save ex_codec ex_img1) = Some ex_img1
      \<and> tables (embed_sbix ex_codec ex_mixed_font [(''a'', ex_rendered), (''d'', ex_img1)] 128 72)
           ''sbix''
          = Some (newTable\<lparr>version := Some 1, tflags := Some 1, strikes := Some [(128, st)]\<rparr>)
      \<and> dict_keys (glyphs st) = [''a'', ''d'']
      \<and> map_option imageData (map_of (glyphs st) ''a'') = Some (png_save ex_codec ex_rendered)"
proof -
  from ex_mixed_run obtain d where
    run: "extract_images ex_codec ex_mixed_font ex_face Map.empty 128
        = Inr (ex_mixed_font, [(''a'', ex_rendered), (''d'', ex_img1)], d)" ..
  have rt: "\<forall>(n, img)\<in>set [(''a'', ex_rendered), (''d'', ex_img1)].
              png_open ex_codec (png_save ex_codec img) = Some img"
    using ex_round_trip by simp
  from sbix_round_trip [OF run rt, of 128 72] obtain st where
    t: "tables (embed_sbix ex_codec ex_mixed_font [(''a'', ex_rendered), (''d'', ex_img1)] 128 72)
           ''sbix''
          = Some (newTable\<lparr>version := Some 1, tflags := Some 1, strikes := Some [(128, st)]\<rparr>)"
    and k: "dict_keys (glyphs st) = dict_keys [(''a'', ex_rendered), (''d'', ex_img1)]"
    and r: "\<forall>(n, img)\<in>set [(''a'', ex_rendered), (''d'', ex_img1)].
              \<exists>gl. map_of (glyphs st) n = Some gl
                 \<and> glyphName gl = n \<and> graphicType gl = ''png ''
                 \<and> originOffsetX gl = 0 \<and> originOffsetY gl = 0
                 \<and> imageData gl = png_save ex_codec img
                 \<and> png_open ex_codec (imageData gl) = Some img"
    by blast
  from k have "dict_keys (glyphs st) = [''a'', ''d'']" by (simp add: dict_keys_def)
  moreover from r have "map_option imageData (map_of (glyphs st) ''a'')
      = Some (png_save ex_codec ex_rendered)"
    by auto
  ultimately show ?thesis using run t ex_round_trip by blast
qed

end
